theory Spec2Isabelle
  imports Complex_Main "HOL-Library.Sublist" "HOL-Library.Multiset"
begin

section \<open>Values, errors and array primitives\<close>

text \<open>
  Numbers of the search code are embedded as \<^typ>\<open>real\<close>: similarity scores, limits
  and sizes are treated as exact values, so rounding, overflow and NaN of IEEE doubles
  are outside this development. A thrown \<^verbatim>\<open>Error\<close> is the left injection of a sum, carrying its message.
\<close>

datatype error =
    Error string
  | TypeError string
  | SyntaxError string
  | DivisionByZero

text \<open>
  The conversion of a number to an integer index: the fraction is dropped, towards zero.
\<close>

definition to_integer :: "real \<Rightarrow> int" where
  "to_integer x = (if 0 \<le> x then \<lfloor>x\<rfloor> else \<lceil>x\<rceil>)"

text \<open>
  \<^verbatim>\<open>arr.slice(0, end)\<close> for a number \<open>end\<close>: \<open>end\<close> is converted to an integer, and
  a negative one counts from the end of the array.
\<close>

definition slice0 :: "real \<Rightarrow> 'a list \<Rightarrow> 'a list" where
  "slice0 end xs =
     (let k = to_integer end in
      if 0 \<le> k then take (nat k) xs
      else take (length xs - nat (- k)) xs)"

text \<open>
  \<^verbatim>\<open>arr.sort((a, b) => key(b) - key(a))\<close>: the stable sort of the array by descending
  key.
\<close>

definition sort_desc :: "('a \<Rightarrow> real) \<Rightarrow> 'a list \<Rightarrow> 'a list" where
  "sort_desc key xs = sort_key (\<lambda>x. - key x) xs"

section \<open>Strings and loose values\<close>

text \<open>
  A string is a list of characters, one character per code unit; the character-specific
  functions below cover the code units 0 to 255. A field or parameter that may be missing
  is a \<^typ>\<open>string option\<close>, with \<^term>\<open>None\<close> for \<^verbatim>\<open>undefined\<close>.
  \<^verbatim>\<open>if (v)\<close> on such a value holds for a non-empty string only.
\<close>

definition truthy :: "string option \<Rightarrow> bool" where
  "truthy v = (case v of None \<Rightarrow> False | Some s \<Rightarrow> s \<noteq> [])"

text \<open>\<^verbatim>\<open>v || d\<close> for a string default \<open>d\<close>.\<close>

definition or_else :: "string option \<Rightarrow> string \<Rightarrow> string" where
  "or_else v d = (case v of None \<Rightarrow> d | Some s \<Rightarrow> if s = [] then d else s)"

text \<open>The order of two strings under \<^verbatim>\<open><\<close>: lexicographic on code units.\<close>

fun str_less :: "string \<Rightarrow> string \<Rightarrow> bool" where
  "str_less [] [] = False"
| "str_less [] (y # ys) = True"
| "str_less (x # xs) [] = False"
| "str_less (x # xs) (y # ys) =
     (if x = y then str_less xs ys else (of_char x :: nat) < of_char y)"

text \<open>
  \<^verbatim>\<open>a < b\<close> and \<^verbatim>\<open>a > b\<close> where \<open>b\<close> is a string and \<open>a\<close> a string or
  \<^verbatim>\<open>undefined\<close>: with \<^verbatim>\<open>undefined\<close> both operands are converted to numbers,
  \<^verbatim>\<open>undefined\<close> becomes NaN, and every comparison with NaN is false.
\<close>

definition js_lt :: "string option \<Rightarrow> string \<Rightarrow> bool" where
  "js_lt a b = (case a of None \<Rightarrow> False | Some s \<Rightarrow> str_less s b)"

definition js_gt :: "string option \<Rightarrow> string \<Rightarrow> bool" where
  "js_gt a b = (case a of None \<Rightarrow> False | Some s \<Rightarrow> str_less b s)"

text \<open>The characters \<^verbatim>\<open>\s\<close> matches and \<^verbatim>\<open>trim\<close> removes, among the code units 0 to 255.\<close>

definition is_space :: "char \<Rightarrow> bool" where
  "is_space c = ((of_char c :: nat) \<in> set [9, 10, 11, 12, 13, 32, 160])"

text \<open>\<^verbatim>\<open>toLowerCase\<close> on the code units 0 to 255: the letters A to Z and the Latin-1 capitals.\<close>

definition lower_char :: "char \<Rightarrow> char" where
  "lower_char c =
     (let n = (of_char c :: nat) in
      if (65 \<le> n \<and> n \<le> 90) \<or> (192 \<le> n \<and> n \<le> 222 \<and> n \<noteq> 215)
      then char_of (n + 32) else c)"

definition toLowerCase :: "string \<Rightarrow> string" where
  "toLowerCase s = map lower_char s"

text \<open>\<^verbatim>\<open>s.trim()\<close>: white space removed at both ends.\<close>

definition trim :: "string \<Rightarrow> string" where
  "trim s = rev (dropWhile is_space (rev (dropWhile is_space s)))"


section \<open>Similarity engine (core/vector-search.js)\<close>

text \<open>
  The accumulation loop of \<^verbatim>\<open>cosineSimilarity\<close>: it runs over the indices of \<open>a\<close>
  and is only reached with \<open>b\<close> of the same length. The accumulator is
  \<open>(dotProduct, normA, normB)\<close>.
\<close>

fun cosine_loop :: "real list \<Rightarrow> real list \<Rightarrow> real \<times> real \<times> real \<Rightarrow> real \<times> real \<times> real" where
  "cosine_loop (x # xs) (y # ys) (d, na, nb) =
     cosine_loop xs ys (d + x * y, na + x * x, nb + y * y)"
| "cosine_loop _ _ acc = acc"

text \<open>
  The final division. On doubles a zero divisor yields an infinity or NaN instead of an
  exception; the embedding marks that outcome as \<^term>\<open>Inl DivisionByZero\<close>, so that
  reaching the division with a zero divisor is visible in the result.
\<close>

definition divide_checked :: "real \<Rightarrow> real \<Rightarrow> error + real" where
  "divide_checked x y = (if y = 0 then Inl DivisionByZero else Inr (x / y))"

definition cosineSimilarity :: "real list \<Rightarrow> real list \<Rightarrow> error + real" where
  "cosineSimilarity a b =
     (if length a \<noteq> length b then Inl (Error ''Vectors must have the same length'')
      else
        (case cosine_loop a b (0, 0, 0) of (dotProduct, sa, sb) \<Rightarrow>
          let normA = sqrt sa; normB = sqrt sb in
          if normA = 0 \<or> normB = 0 then Inr 0
          else divide_checked dotProduct (normA * normB)))"

text \<open>
  A vector record of a collection, and the same record with its similarity attached
  (\<^verbatim>\<open>{...doc, similarity}\<close>). Metadata is a mapping from field names to strings; an
  absent field reads as \<^verbatim>\<open>undefined\<close>.
\<close>

record vec_record =
  rec_id :: string
  embedding :: "real list"
  metadata :: "string \<rightharpoonup> string"

record scored = vec_record +
  similarity :: real

definition with_similarity :: "vec_record \<Rightarrow> real \<Rightarrow> scored" where
  "with_similarity doc s = vec_record.extend doc (scored.fields s)"

text \<open>
  \<^verbatim>\<open>documents.map(doc => ...)\<close>: the callback runs on the documents in order and the
  first throw aborts the map.
\<close>

fun score_documents :: "real list \<Rightarrow> vec_record list \<Rightarrow> error + scored list" where
  "score_documents q [] = Inr []"
| "score_documents q (doc # docs) =
     (case cosineSimilarity q (embedding doc) of
        Inl e \<Rightarrow> Inl e
      | Inr s \<Rightarrow>
          (case score_documents q docs of
             Inl e \<Rightarrow> Inl e
           | Inr rs \<Rightarrow> Inr (with_similarity doc s # rs)))"

definition vectorSearch :: "real list \<Rightarrow> vec_record list \<Rightarrow> real \<Rightarrow> error + scored list" where
  "vectorSearch queryVector documents limit =
     (case score_documents queryVector documents of
        Inl e \<Rightarrow> Inl e
      | Inr results \<Rightarrow> Inr (slice0 limit (sort_desc similarity results)))"

text \<open>
  \<^verbatim>\<open>filterByDateRange\<close>: a result without a date (or with an empty one) is kept
  before the bounds are looked at.
\<close>

definition filterByDateRange ::
  "('a vec_record_scheme) list \<Rightarrow> string option \<Rightarrow> string option \<Rightarrow> ('a vec_record_scheme) list" where
  "filterByDateRange results startDate endDate =
     filter (\<lambda>result.
        let date = metadata result ''date'' in
        if \<not> truthy date then True
        else if truthy startDate \<and> js_lt date (the startDate) then False
        else if truthy endDate \<and> js_gt date (the endDate) then False
        else True) results"

section \<open>Per-source search adapter (sources/discord.js)\<close>

text \<open>
  The parameter object of a search tool. Every property may be missing; the defaults of
  the destructuring (\<^verbatim>\<open>limit = 20\<close>, \<^verbatim>\<open>semantic_weight = 0.7\<close>, the list of all
  sources) apply to a missing property.
\<close>

record params =
  query :: "string option"
  server_id :: "string option"
  channel_id :: "string option"
  author :: "string option"
  start_date :: "string option"
  end_date :: "string option"
  limit :: "real option"
  semantic_weight :: "real option"
  sources :: "string list option"

definition limit_or_default :: "params \<Rightarrow> real" where
  "limit_or_default p = (case limit p of None \<Rightarrow> 20 | Some l \<Rightarrow> l)"

definition weight_or_default :: "params \<Rightarrow> real" where
  "weight_or_default p = (case semantic_weight p of None \<Rightarrow> 7 / 10 | Some w \<Rightarrow> w)"

text \<open>
  One entry of a result list: the text, the score (twice), and the metadata fields the
  source copies.
\<close>

record hit =
  hit_text :: "string option"
  score :: real
  hit_similarity :: real
  meta_fields :: "string \<rightharpoonup> string"

record 'h response =
  response_query :: string
  total_results :: real
  results :: "'h list"
  search_type :: string
  weights :: "(real \<times> real) option"
  filters :: "(string \<times> string) list"

text \<open>
  What a search needs from outside: the outcome of \<^verbatim>\<open>initializeDiscordVectors()\<close> (the
  cached or loaded collection, or the error thrown when the snapshot is missing), the
  embedding provider, and the regular-expression engine for the patterns that are not
  embedded below: given the source of a pattern and a text, the number of matches
  \<^verbatim>\<open>(text.match(new RegExp(source, 'g')) || []).length\<close>, or the error thrown for an
  invalid pattern.
\<close>

record search_env =
  vectors :: "error + vec_record list"
  generateEmbedding :: "string \<Rightarrow> error + real list"
  pattern_engine :: "string \<Rightarrow> string \<Rightarrow> error + nat"

text \<open>The two date checks of the filter loop: true when one of them skips the result.\<close>

definition date_checks_skip :: "params \<Rightarrow> (string \<rightharpoonup> string) \<Rightarrow> bool" where
  "date_checks_skip p m =
     ((truthy (start_date p) \<and> js_lt (m ''date'') (the (start_date p)))
      \<or> (truthy (end_date p) \<and> js_gt (m ''date'') (the (end_date p))))"

text \<open>All five checks, in the order of the loop body: true when the result is skipped.\<close>

definition discord_skips :: "params \<Rightarrow> (string \<rightharpoonup> string) \<Rightarrow> bool" where
  "discord_skips p m =
     ((truthy (server_id p) \<and> m ''server_id'' \<noteq> server_id p)
      \<or> (truthy (channel_id p) \<and> m ''channel_id'' \<noteq> channel_id p)
      \<or> (truthy (author p) \<and> m ''author'' \<noteq> author p)
      \<or> date_checks_skip p m)"

definition discord_hit :: "scored \<Rightarrow> hit" where
  "discord_hit result =
     \<lparr>hit_text = metadata result ''text'',
      score = similarity result,
      hit_similarity = similarity result,
      meta_fields = metadata result |`
        {''server_id'', ''channel_id'', ''author'', ''date'', ''time'', ''message_id''}\<rparr>"

text \<open>
  The filter loop over the search results: a skipped result is passed over, any other is
  pushed, and the loop breaks once \<open>limit\<close> results are collected.
\<close>

fun discord_filter_loop :: "params \<Rightarrow> real \<Rightarrow> scored list \<Rightarrow> hit list \<Rightarrow> hit list" where
  "discord_filter_loop p limit_v [] filteredResults = filteredResults"
| "discord_filter_loop p limit_v (result # rest) filteredResults =
     (if discord_skips p (metadata result) then discord_filter_loop p limit_v rest filteredResults
      else
        let pushed = filteredResults @ [discord_hit result] in
        if limit_v \<le> real (length pushed) then pushed
        else discord_filter_loop p limit_v rest pushed)"

definition discord_filters_echo :: "params \<Rightarrow> (string \<times> string) list" where
  "discord_filters_echo p =
     [(''server_id'', or_else (server_id p) ''all''),
      (''channel_id'', or_else (channel_id p) ''all''),
      (''author'', or_else (author p) ''all''),
      (''date_range'',
        if truthy (start_date p) \<and> truthy (end_date p)
        then the (start_date p) @ '' to '' @ the (end_date p) else ''all'')]"

definition discordSemanticSearch :: "search_env \<Rightarrow> params \<Rightarrow> error + hit response" where
  "discordSemanticSearch env p =
     (if \<not> truthy (query p) then Inl (Error ''query is required'')
      else
        (case vectors env of
           Inl e \<Rightarrow> Inl e
         | Inr docs \<Rightarrow>
             (case generateEmbedding env (the (query p)) of
                Inl e \<Rightarrow> Inl e
              | Inr queryVector \<Rightarrow>
                  (case vectorSearch queryVector docs (limit_or_default p * 2) of
                     Inl e \<Rightarrow> Inl e
                   | Inr searchResults \<Rightarrow>
                       let filteredResults =
                             discord_filter_loop p (limit_or_default p) searchResults []
                       in Inr \<lparr>response_query = the (query p),
                               total_results = real (length filteredResults),
                               results = filteredResults,
                               search_type = ''semantic'',
                               weights = None,
                               filters = discord_filters_echo p\<rparr>))))"

section \<open>Hybrid scoring (sources/discord.js)\<close>

text \<open>
  \<^verbatim>\<open>s.split(/\s+/)\<close>: the pieces between maximal runs of white space. White space at the
  start or at the end of \<open>s\<close> leaves an empty first or last piece, and the empty string
  gives one empty piece.
\<close>

function split_ws :: "string \<Rightarrow> string list" where
  "split_ws s =
     (let tok = takeWhile (\<lambda>c. \<not> is_space c) s;
          rest = dropWhile (\<lambda>c. \<not> is_space c) s
      in if rest = [] then [tok] else tok # split_ws (dropWhile is_space rest))"
  by pat_completeness auto
termination
proof (relation "measure length")
  fix s tok rest
  assume r: "rest = dropWhile (\<lambda>c. \<not> is_space c) s" and ne: "rest \<noteq> []"
  have "length (dropWhile is_space rest) < length rest"
  proof (cases rest)
    case Nil
    with ne show ?thesis by simp
  next
    case (Cons c cs)
    then have "is_space c" using r hd_dropWhile[of "\<lambda>c. \<not> is_space c" s] ne by auto
    then show ?thesis using Cons
      by (simp add: le_imp_less_Suc length_dropWhile_le)
  qed
  moreover have "length rest \<le> length s" using r by (simp add: length_dropWhile_le)
  ultimately show "(dropWhile is_space rest, s) \<in> measure length" by simp
qed simp

text \<open>
  \<^verbatim>\<open>new RegExp(keyword, 'g')\<close>. The keyword is the source text of the pattern. Embedded
  here are the patterns made of ordinary characters and the dot (any character but a
  line terminator), and the rejection of a pattern that starts with a quantifier
  (\<^verbatim>\<open>*\<close>, \<^verbatim>\<open>+\<close>, \<^verbatim>\<open>?\<close>), which the constructor throws a \<^verbatim>\<open>SyntaxError\<close> for. A
  keyword with any other character of the pattern syntax is \<^term>\<open>Beyond\<close> this fragment
  and is left to the engine of the environment.
\<close>

datatype pat_item = Lit char | AnyChar

datatype compiled = Pattern "pat_item list" | Invalid | Beyond

definition quantifier_char :: "char \<Rightarrow> bool" where
  "quantifier_char c = (c \<in> set ''*+?'')"

definition syntax_char :: "char \<Rightarrow> bool" where
  "syntax_char c = (c \<in> set (CHR 0x5C # ''^$.*+?()[]{}|''))"

fun pattern_items :: "string \<Rightarrow> pat_item list option" where
  "pattern_items [] = Some []"
| "pattern_items (c # cs) =
     (if c = CHR ''.'' then map_option ((#) AnyChar) (pattern_items cs)
      else if syntax_char c then None
      else map_option ((#) (Lit c)) (pattern_items cs))"

definition compile_keyword :: "string \<Rightarrow> compiled" where
  "compile_keyword keyword =
     (case keyword of
        [] \<Rightarrow> Pattern []
      | c # cs \<Rightarrow>
          if quantifier_char c then Invalid
          else (case pattern_items keyword of None \<Rightarrow> Beyond | Some items \<Rightarrow> Pattern items))"

definition line_terminator :: "char \<Rightarrow> bool" where
  "line_terminator c = ((of_char c :: nat) \<in> set [10, 13])"

text \<open>Does the pattern match at the start of the text?\<close>

fun match_here :: "pat_item list \<Rightarrow> string \<Rightarrow> bool" where
  "match_here [] t = True"
| "match_here (i # items) [] = False"
| "match_here (Lit c # items) (x # t) = (c = x \<and> match_here items t)"
| "match_here (AnyChar # items) (x # t) = (\<not> line_terminator x \<and> match_here items t)"

text \<open>
  \<^verbatim>\<open>(text.match(re) || []).length\<close> for a global pattern: the matches are found from
  left to right, each search starting where the last match ended (one further after an
  empty match).
\<close>

function count_matches :: "pat_item list \<Rightarrow> string \<Rightarrow> nat" where
  "count_matches items [] = (if items = [] then 1 else 0)"
| "count_matches items (x # t) =
     (if match_here items (x # t)
      then 1 + count_matches items (drop (max 1 (length items)) (x # t))
      else count_matches items t)"
  by pat_completeness auto
termination
  by (relation "measure (\<lambda>(items, t). length t)") auto

text \<open>
  The \<^verbatim>\<open>reduce\<close> over the keywords, with the running score. The first keyword whose
  pattern is rejected throws.
\<close>

fun keyword_matches ::
  "(string \<Rightarrow> string \<Rightarrow> error + nat) \<Rightarrow> string list \<Rightarrow> string \<Rightarrow> nat \<Rightarrow> error + nat" where
  "keyword_matches engine [] t score_v = Inr score_v"
| "keyword_matches engine (keyword # keywords) t score_v =
     (case compile_keyword keyword of
        Invalid \<Rightarrow> Inl (SyntaxError ''Invalid regular expression: Nothing to repeat'')
      | Beyond \<Rightarrow>
          (case engine keyword t of
             Inl e \<Rightarrow> Inl e
           | Inr matches \<Rightarrow> keyword_matches engine keywords t (score_v + matches))
      | Pattern items \<Rightarrow>
          keyword_matches engine keywords t (score_v + count_matches items t))"

record hybrid_hit = hit +
  keyword_score :: real
  hybrid_score :: real

text \<open>The callback of \<^verbatim>\<open>semanticResults.results.map\<close>: one result with its two scores.\<close>

definition hybrid_result ::
  "(string \<Rightarrow> string \<Rightarrow> error + nat) \<Rightarrow> string list \<Rightarrow> real \<Rightarrow> hit \<Rightarrow> error + hybrid_hit" where
  "hybrid_result engine keywords semantic_weight_v result =
     (case hit_text result of
        None \<Rightarrow> Inl (TypeError ''Cannot read properties of undefined'')
      | Some t \<Rightarrow>
          (case keyword_matches engine keywords (toLowerCase t) 0 of
             Inl e \<Rightarrow> Inl e
           | Inr matches \<Rightarrow>
               let keywordScore = real matches / real (length keywords);
                   normalizedKeywordScore = min (keywordScore / 5) 1;
                   hybridScore = hit_similarity result * semantic_weight_v
                                 + normalizedKeywordScore * (1 - semantic_weight_v)
               in Inr (hit.extend result
                        (hybrid_hit.fields normalizedKeywordScore hybridScore))))"

fun hybrid_results ::
  "(string \<Rightarrow> string \<Rightarrow> error + nat) \<Rightarrow> string list \<Rightarrow> real \<Rightarrow> hit list
     \<Rightarrow> error + hybrid_hit list" where
  "hybrid_results engine keywords w [] = Inr []"
| "hybrid_results engine keywords w (result # rest) =
     (case hybrid_result engine keywords w result of
        Inl e \<Rightarrow> Inl e
      | Inr h \<Rightarrow>
          (case hybrid_results engine keywords w rest of
             Inl e \<Rightarrow> Inl e
           | Inr hs \<Rightarrow> Inr (h # hs)))"

text \<open>The parameter object the hybrid search passes to the semantic search.\<close>

definition semantic_call :: "params \<Rightarrow> params" where
  "semantic_call p =
     \<lparr>query = query p, server_id = server_id p, channel_id = channel_id p,
      author = author p, start_date = start_date p, end_date = end_date p,
      limit = Some (limit_or_default p * 2), semantic_weight = None, sources = None\<rparr>"

definition discordHybridSearch :: "search_env \<Rightarrow> params \<Rightarrow> error + hybrid_hit response" where
  "discordHybridSearch env p =
     (if \<not> truthy (query p) then Inl (Error ''query is required'')
      else
        (case discordSemanticSearch env (semantic_call p) of
           Inl e \<Rightarrow> Inl e
         | Inr semanticResults \<Rightarrow>
             let keywords = split_ws (toLowerCase (the (query p))) in
             (case hybrid_results (pattern_engine env) keywords (weight_or_default p)
                     (results semanticResults) of
                Inl e \<Rightarrow> Inl e
              | Inr hybridResults \<Rightarrow>
                  let sorted_results = sort_desc hybrid_score hybridResults in
                  Inr \<lparr>response_query = the (query p),
                       total_results = min (real (length sorted_results)) (limit_or_default p),
                       results = slice0 (limit_or_default p) sorted_results,
                       search_type = ''hybrid'',
                       weights = Some (weight_or_default p, 1 - weight_or_default p),
                       filters = discord_filters_echo p\<rparr>)))"

section \<open>Aggregator (sources/unified.js)\<close>

text \<open>A result tagged with the source it came from (\<^verbatim>\<open>{...r, source}\<close>).\<close>

record tagged_hit = hit +
  source :: string

definition tag :: "string \<Rightarrow> hit \<Rightarrow> tagged_hit" where
  "tag name r = hit.extend r (tagged_hit.fields name)"

text \<open>\<^verbatim>\<open>error.message\<close>.\<close>

fun message :: "error \<Rightarrow> string" where
  "message (Error m) = m"
| "message (TypeError m) = m"
| "message (SyntaxError m) = m"
| "message DivisionByZero = ''Division by zero''"

text \<open>A search handler of one source: a tool's \<^verbatim>\<open>handler\<close>, awaited.\<close>

type_synonym handler = "params \<Rightarrow> error + hit response"

text \<open>The two objects the callbacks of the source promises write to.\<close>

record unified_state =
  sourceResults :: "string \<rightharpoonup> hit response"
  errors :: "string \<rightharpoonup> string"

record unified_response =
  unified_query :: string
  unified_total_results :: int
  unified_results :: "tagged_hit list"
  unified_search_type :: string
  sources_searched :: "string list"
  source_counts :: "string \<rightharpoonup> real"
  response_errors :: "(string \<rightharpoonup> string) option"

definition sources_or_default :: "params \<Rightarrow> string list" where
  "sources_or_default p =
     (case sources p of None \<Rightarrow> [''discord'', ''docs'', ''knowledge''] | Some s \<Rightarrow> s)"

text \<open>The parameter object \<^verbatim>\<open>{ query, limit }\<close> every handler is called with.\<close>

definition source_call :: "params \<Rightarrow> params" where
  "source_call p =
     \<lparr>query = query p, server_id = None, channel_id = None, author = None,
      start_date = None, end_date = None, limit = Some (limit_or_default p),
      semantic_weight = None, sources = None\<rparr>"

text \<open>
  One source promise, settled: \<^verbatim>\<open>handler(...).then(...).catch(...)\<close>. A response is
  recorded under the source's name and its results are tagged; an error is recorded by
  its message and the promise resolves to the empty list.
\<close>

definition search_source ::
  "string \<Rightarrow> handler \<Rightarrow> params \<Rightarrow> unified_state \<Rightarrow> tagged_hit list \<times> unified_state" where
  "search_source name h p st =
     (case h (source_call p) of
        Inr result \<Rightarrow>
          (map (tag name) (results result),
           st\<lparr>sourceResults := (sourceResults st)(name \<mapsto> result)\<rparr>)
      | Inl error \<Rightarrow> ([], st\<lparr>errors := (errors st)(name \<mapsto> message error)\<rparr>))"

text \<open>\<^verbatim>\<open>if (sources.includes(name)) searchPromises.push(...)\<close>.\<close>

definition run_source ::
  "string \<Rightarrow> handler \<Rightarrow> params \<Rightarrow> unified_state \<Rightarrow> tagged_hit list \<times> unified_state" where
  "run_source name h p st =
     (if name \<in> set (sources_or_default p) then search_source name h p st else ([], st))"

text \<open>\<^verbatim>\<open>sourceResults.name?.total_results || 0\<close>.\<close>

definition count_of :: "unified_state \<Rightarrow> string \<Rightarrow> real" where
  "count_of st name = (case sourceResults st name of None \<Rightarrow> 0 | Some r \<Rightarrow> total_results r)"

text \<open>
  The unified semantic search over the three handlers. The source promises run
  concurrently; each writes only under its own name and \<^verbatim>\<open>Promise.all\<close> returns their
  lists in the order the promises were pushed, so the outcome is that of settling them
  one after the other.
\<close>

definition unifiedSemanticSearch ::
  "handler \<Rightarrow> handler \<Rightarrow> handler \<Rightarrow> params \<Rightarrow> error + unified_response" where
  "unifiedSemanticSearch discord_handler docs_handler knowledge_handler p =
     (if \<not> truthy (query p) then Inl (Error ''query is required'')
      else
        (case run_source ''discord'' discord_handler p
                \<lparr>sourceResults = Map.empty, errors = Map.empty\<rparr> of (r1, st1) \<Rightarrow>
         case run_source ''docs'' docs_handler p st1 of (r2, st2) \<Rightarrow>
         case run_source ''knowledge'' knowledge_handler p st2 of (r3, st3) \<Rightarrow>
           let allResults = sort_desc hit_similarity (r1 @ r2 @ r3);
               topResults = slice0 (limit_or_default p) allResults
           in Inr \<lparr>unified_query = the (query p),
                   unified_total_results = int (length topResults),
                   unified_results = topResults,
                   unified_search_type = ''unified_semantic'',
                   sources_searched = sources_or_default p,
                   source_counts =
                     [''discord'' \<mapsto> count_of st3 ''discord'',
                      ''docs'' \<mapsto> count_of st3 ''docs'',
                      ''knowledge'' \<mapsto> count_of st3 ''knowledge''],
                   response_errors =
                     (if errors st3 = Map.empty then None else Some (errors st3))\<rparr>))"

section \<open>Vector record store (core/indexer.js)\<close>











section \<open>Chunker (core/indexer.js)\<close>

text \<open>
  \<^verbatim>\<open>text.split(separator)\<close> for a string separator. The second function scans the
  text with the piece collected so far; an empty separator splits into single
  characters.
\<close>

function split_go :: "string \<Rightarrow> string \<Rightarrow> string \<Rightarrow> string list" where
  "split_go sep [] piece = [piece]"
| "split_go sep (c # s) piece =
     (if sep \<noteq> [] \<and> prefix sep (c # s)
      then piece # split_go sep (drop (length sep) (c # s)) []
      else split_go sep s (piece @ [c]))"
  by pat_completeness auto
termination
  by (relation "measure (\<lambda>(sep, s, piece). length s)") (auto simp: neq_Nil_conv)

definition split_on :: "string \<Rightarrow> string \<Rightarrow> string list" where
  "split_on sep s = (if sep = [] then map (\<lambda>c. [c]) s else split_go sep s [])"

text \<open>
  \<^verbatim>\<open>section.match(/[^.!?]+[.!?]+/g)\<close>: the sentences of a section, each a longest run
  of other characters followed by a longest run of the marks \<^verbatim>\<open>.\<close>, \<^verbatim>\<open>!\<close>, \<^verbatim>\<open>?\<close>.
  Marks before the first sentence and text after the last mark belong to no match. The
  empty list stands for \<^verbatim>\<open>null\<close>.
\<close>

definition sentence_mark :: "char \<Rightarrow> bool" where
  "sentence_mark c = (c \<in> set ''.!?'')"

function sentences :: "string \<Rightarrow> string list" where
  "sentences s =
     (let s1 = dropWhile sentence_mark s;
          body = takeWhile (\<lambda>c. \<not> sentence_mark c) s1;
          r1 = dropWhile (\<lambda>c. \<not> sentence_mark c) s1;
          marks = takeWhile sentence_mark r1;
          r2 = dropWhile sentence_mark r1
      in if body = [] \<or> marks = [] then [] else (body @ marks) # sentences r2)"
  by pat_completeness auto
termination
proof (relation "measure length")
  fix s s1 body r1 marks r2 :: string
  assume s1: "s1 = dropWhile sentence_mark s"
    and r1: "r1 = dropWhile (\<lambda>c. \<not> sentence_mark c) s1"
    and marks: "marks = takeWhile sentence_mark r1"
    and r2: "r2 = dropWhile sentence_mark r1"
    and ne: "\<not> (body = [] \<or> marks = [])"
  have "length marks + length r2 = length r1"
    using marks r2 by (metis length_append takeWhile_dropWhile_id)
  moreover have "0 < length marks" using ne by (cases marks) simp_all
  ultimately have "length r2 < length r1" by linarith
  moreover have "length r1 \<le> length s1" using r1 by (simp add: length_dropWhile_le)
  moreover have "length s1 \<le> length s" using s1 by (simp add: length_dropWhile_le)
  ultimately have "length r2 < length s" by linarith
  then show "(r2, s) \<in> measure length" by simp
qed simp

record chunk_options =
  chunkSize :: "real option"
  chunkOverlap :: "real option"
  separator :: "string option"

definition chunk_size :: "chunk_options \<Rightarrow> real" where
  "chunk_size opts = (case chunkSize opts of None \<Rightarrow> 1000 | Some n \<Rightarrow> n)"

definition chunk_separator :: "chunk_options \<Rightarrow> string" where
  "chunk_separator opts = (case separator opts of None \<Rightarrow> [CHR 0x0A, CHR 0x0A] | Some s \<Rightarrow> s)"

text \<open>
  The loop over the sentences of a large section. The state of both loops is the list
  of chunks pushed so far and \<^verbatim>\<open>currentChunk\<close>.
\<close>

fun sentence_loop :: "real \<Rightarrow> string list \<Rightarrow> string list \<times> string \<Rightarrow> string list \<times> string" where
  "sentence_loop size_v [] st = st"
| "sentence_loop size_v (sentence # rest) (chunks, currentChunk) =
     (if real (length currentChunk) + real (length sentence) > size_v
      then sentence_loop size_v rest
             (if currentChunk \<noteq> [] then chunks @ [trim currentChunk] else chunks, sentence)
      else sentence_loop size_v rest (chunks, currentChunk @ sentence))"

fun section_loop ::
  "real \<Rightarrow> string \<Rightarrow> string list \<Rightarrow> string list \<times> string \<Rightarrow> string list \<times> string" where
  "section_loop size_v sep [] st = st"
| "section_loop size_v sep (section # rest) (chunks, currentChunk) =
     (if real (length section) > size_v
      then
        let flushed = (if currentChunk \<noteq> [] then chunks @ [trim currentChunk] else chunks);
            found = sentences section
        in section_loop size_v sep rest
             (sentence_loop size_v (if found = [] then [section] else found) (flushed, []))
      else if real (length currentChunk) + real (length section) > size_v
      then section_loop size_v sep rest (chunks @ [trim currentChunk], section)
      else section_loop size_v sep rest
             (chunks, currentChunk @ (if currentChunk \<noteq> [] then sep else []) @ section))"

definition chunkText :: "string \<Rightarrow> chunk_options \<Rightarrow> string list" where
  "chunkText text_v opts =
     (case section_loop (chunk_size opts) (chunk_separator opts)
             (split_on (chunk_separator opts) text_v) ([], []) of
        (chunks, currentChunk) \<Rightarrow>
          filter (\<lambda>chunk. length chunk > 0)
            (if currentChunk \<noteq> [] then chunks @ [trim currentChunk] else chunks))"

section \<open>Notions used in the statements\<close>

text \<open>The Euclidean norm of a vector, the magnitude the similarity is normalised by.\<close>

definition magnitude :: "real list \<Rightarrow> real" where
  "magnitude v = sqrt (\<Sum>x\<leftarrow>v. x * x)"

text \<open>The scored form of a collection: every document with its similarity to the query.\<close>

definition scored_collection :: "real list \<Rightarrow> vec_record list \<Rightarrow> scored list" where
  "scored_collection q docs =
     map (\<lambda>d. with_similarity d (projr (cosineSimilarity q (embedding d)))) docs"

text \<open>A record whose metadata has no \<^verbatim>\<open>date\<close> field.\<close>

definition undated :: "'a vec_record_scheme \<Rightarrow> bool" where
  "undated r = (metadata r ''date'' = None)"

text \<open>A result passes the filters when no check of the loop skips it.\<close>

definition passes :: "params \<Rightarrow> scored \<Rightarrow> bool" where
  "passes p r = (\<not> discord_skips p (metadata r))"

definition no_filters :: "params \<Rightarrow> bool" where
  "no_filters p =
     (\<not> truthy (server_id p) \<and> \<not> truthy (channel_id p) \<and> \<not> truthy (author p)
      \<and> \<not> truthy (start_date p) \<and> \<not> truthy (end_date p))"

text \<open>
  The result list of the semantic search for a limit \<open>l \<ge> 0\<close>, in closed form: of the
  \<open>2 l\<close> best records (rounded down), the first \<open>l\<close> (rounded up) that pass the
  filters.
\<close>

definition semantic_hits :: "params \<Rightarrow> real \<Rightarrow> scored list \<Rightarrow> hit list" where
  "semantic_hits p l S =
     map discord_hit (take (nat \<lceil>l\<rceil>) (filter (passes p) (take (nat \<lfloor>l * 2\<rfloor>) S)))"

text \<open>A limit that is a whole number.\<close>

definition whole_number :: "real \<Rightarrow> bool" where
  "whole_number x = (x = of_int \<lfloor>x\<rfloor>)"

text \<open>
  The keyword score in the specification's words: the occurrences of each keyword in the
  text (counted from left to right without overlap), summed, divided by the number of
  keywords, divided by 5 and capped at 1.
\<close>

function occurrences :: "string \<Rightarrow> string \<Rightarrow> nat" where
  "occurrences keyword [] = (if keyword = [] then 1 else 0)"
| "occurrences keyword (x # t) =
     (if prefix keyword (x # t)
      then 1 + occurrences keyword (drop (max 1 (length keyword)) (x # t))
      else occurrences keyword t)"
  by pat_completeness auto
termination
  by (relation "measure (\<lambda>(keyword, t). length t)") auto

definition spec_keyword_score :: "string list \<Rightarrow> string \<Rightarrow> real" where
  "spec_keyword_score keywords t =
     min ((real (\<Sum>keyword\<leftarrow>keywords. occurrences keyword t) / real (length keywords)) / 5) 1"

text \<open>A keyword without any character of the pattern syntax.\<close>

definition plain_keyword :: "string \<Rightarrow> bool" where
  "plain_keyword keyword = list_all (\<lambda>c. \<not> syntax_char c) keyword"

text \<open>A hybrid result whose two scores are the ones the specification describes.\<close>

definition scored_as_specified :: "string list \<Rightarrow> real \<Rightarrow> hybrid_hit \<Rightarrow> bool" where
  "scored_as_specified keywords w h =
     (keyword_score h = spec_keyword_score keywords (toLowerCase (the (hit_text h)))
      \<and> hybrid_score h = hit_similarity h * w + keyword_score h * (1 - w))"

text \<open>The handler registered under a source name, and what a source contributes.\<close>

definition handler_of :: "handler \<Rightarrow> handler \<Rightarrow> handler \<Rightarrow> string \<Rightarrow> handler" where
  "handler_of discord_handler docs_handler knowledge_handler name =
     (if name = ''discord'' then discord_handler
      else if name = ''docs'' then docs_handler
      else knowledge_handler)"

definition known_source :: "string \<Rightarrow> bool" where
  "known_source name = (name \<in> set [''discord'', ''docs'', ''knowledge''])"

definition contribution :: "string \<Rightarrow> handler \<Rightarrow> params \<Rightarrow> tagged_hit list" where
  "contribution name h p =
     (if name \<in> set (sources_or_default p)
      then (case h (source_call p) of Inr result \<Rightarrow> map (tag name) (results result) | Inl e \<Rightarrow> [])
      else [])"

text \<open>The state after the three source promises have settled.\<close>

definition final_state :: "handler \<Rightarrow> handler \<Rightarrow> handler \<Rightarrow> params \<Rightarrow> unified_state" where
  "final_state h1 h2 h3 p =
     snd (run_source ''knowledge'' h3 p
       (snd (run_source ''docs'' h2 p
         (snd (run_source ''discord'' h1 p \<lparr>sourceResults = Map.empty, errors = Map.empty\<rparr>)))))"




text \<open>A text that begins with the separator, for a separator that is not empty.\<close>

definition begins_with_separator :: "string \<Rightarrow> string \<Rightarrow> bool" where
  "begins_with_separator sep t = (sep \<noteq> [] \<and> prefix sep t)"

text \<open>The value of \<^verbatim>\<open>currentChunk\<close> after a run of sections that are all appended to it.\<close>

fun accumulate :: "string \<Rightarrow> string list \<Rightarrow> string \<Rightarrow> string" where
  "accumulate sep [] cur = cur"
| "accumulate sep (section # rest) cur =
     accumulate sep rest (cur @ (if cur \<noteq> [] then sep else []) @ section)"

section \<open>Concrete inputs\<close>

definition example_env :: search_env where
  "example_env =
     \<lparr>vectors = Inr [\<lparr>rec_id = ''m1'', embedding = [1, 0],
                       metadata = [''text'' \<mapsto> ''hello world'', ''author'' \<mapsto> ''ann'']\<rparr>],
      generateEmbedding = (\<lambda>q. Inr [1, 0]),
      pattern_engine = (\<lambda>source t. Inr 0)\<rparr>"

definition example_params :: params where
  "example_params =
     \<lparr>query = Some ''hello'', server_id = None, channel_id = None, author = None,
      start_date = None, end_date = None, limit = None, semantic_weight = None,
      sources = None\<rparr>"

definition dated_params :: params where
  "dated_params =
     example_params\<lparr>start_date := Some ''2024-01-01'', end_date := Some ''2024-12-31''\<rparr>"

text \<open>
  Three messages with the same embedding; only the third is by the author asked for.
\<close>

definition three_messages :: "vec_record list" where
  "three_messages =
     [\<lparr>rec_id = ''d1'', embedding = [1, 0], metadata = [''text'' \<mapsto> ''x'', ''author'' \<mapsto> ''bob'']\<rparr>,
      \<lparr>rec_id = ''d2'', embedding = [1, 0], metadata = [''text'' \<mapsto> ''y'', ''author'' \<mapsto> ''bob'']\<rparr>,
      \<lparr>rec_id = ''d3'', embedding = [1, 0], metadata = [''text'' \<mapsto> ''z'', ''author'' \<mapsto> ''ann'']\<rparr>]"

definition filtered_env :: search_env where
  "filtered_env =
     \<lparr>vectors = Inr three_messages, generateEmbedding = (\<lambda>q. Inr [1, 0]),
      pattern_engine = (\<lambda>source t. Inr 0)\<rparr>"

definition filtered_params :: params where
  "filtered_params =
     \<lparr>query = Some ''z'', server_id = None, channel_id = None, author = Some ''ann'',
      start_date = None, end_date = None, limit = Some 1, semantic_weight = Some 1,
      sources = None\<rparr>"

definition weight_one_params :: params where
  "weight_one_params = example_params\<lparr>query := Some ''what?'', semantic_weight := Some 1\<rparr>"

text \<open>The same search without the author filter, at a limit of one half.\<close>

definition half_limit_params :: params where
  "half_limit_params = filtered_params\<lparr>author := None, limit := Some (1 / 2)\<rparr>"

text \<open>
  A unified search over two sources: the Discord snapshot is missing, the other source
  is loaded.
\<close>

definition missing_env :: search_env where
  "missing_env =
     \<lparr>vectors = Inl (Error ''Discord vector database not initialized. Run: npm run index-discord''),
      generateEmbedding = (\<lambda>q. Inr [1, 0]),
      pattern_engine = (\<lambda>source t. Inr 0)\<rparr>"

definition two_sources_params :: params where
  "two_sources_params = example_params\<lparr>sources := Some [''discord'', ''docs'']\<rparr>"







section \<open>Properties of the similarity engine\<close>

lemma cosine_loop_sums:
  "length a = length b \<Longrightarrow>
   cosine_loop a b (d, na, nb) =
     (d + (\<Sum>(x, y)\<leftarrow>zip a b. x * y), na + (\<Sum>x\<leftarrow>a. x * x), nb + (\<Sum>y\<leftarrow>b. y * y))"
proof (induction a b "(d, na, nb)" arbitrary: d na nb rule: cosine_loop.induct)
  case (1 x xs y ys d na nb)
  then show ?case by (simp add: algebra_simps)
qed simp_all

lemma cosineSimilarity_mismatch:
  "length a \<noteq> length b \<Longrightarrow>
   cosineSimilarity a b = Inl (Error ''Vectors must have the same length'')"
  by (simp add: cosineSimilarity_def)

lemma cosineSimilarity_returns:
  assumes "length a = length b"
  shows "\<exists>r. cosineSimilarity a b = Inr r"
  using assms
  by (auto simp: cosineSimilarity_def divide_checked_def Let_def split: prod.splits)

lemma cosineSimilarity_no_zero_division:
  "cosineSimilarity a b \<noteq> Inl DivisionByZero"
  by (auto simp: cosineSimilarity_def divide_checked_def Let_def split: prod.splits)

lemma cosineSimilarity_zero_magnitude:
  assumes "length a = length b" and "magnitude a = 0 \<or> magnitude b = 0"
  shows "cosineSimilarity a b = Inr 0"
  using assms
  by (auto simp: cosineSimilarity_def magnitude_def cosine_loop_sums Let_def)

lemma score_documents_ok:
  "list_all (\<lambda>d. length (embedding d) = length q) docs \<Longrightarrow>
   score_documents q docs = Inr (scored_collection q docs)"
proof (induction docs)
  case (Cons d ds)
  then obtain r where "cosineSimilarity q (embedding d) = Inr r"
    using cosineSimilarity_returns[of q "embedding d"] by auto
  with Cons show ?case by (simp add: scored_collection_def)
qed (simp add: scored_collection_def)

lemma score_documents_mismatch:
  "list_ex (\<lambda>d. length (embedding d) \<noteq> length q) docs \<Longrightarrow>
   score_documents q docs = Inl (Error ''Vectors must have the same length'')"
proof (induction docs)
  case (Cons d ds)
  show ?case
  proof (cases "length (embedding d) = length q")
    case True
    then obtain r where "cosineSimilarity q (embedding d) = Inr r"
      using cosineSimilarity_returns[of q "embedding d"] by auto
    with Cons True show ?thesis by simp
  next
    case False
    then show ?thesis using cosineSimilarity_mismatch[of q "embedding d"] by simp
  qed
qed simp

lemma sort_desc_sorted: "sorted_wrt (\<lambda>a b. key b \<le> key a) (sort_desc key xs)"
proof -
  have "sorted (map (\<lambda>x. - key x) (sort_desc key xs))"
    unfolding sort_desc_def by (rule sorted_sort_key)
  then show ?thesis by (simp add: sorted_wrt_map)
qed



lemma slice0_nonneg: "0 \<le> n \<Longrightarrow> slice0 n xs = take (nat \<lfloor>n\<rfloor>) xs"
  by (simp add: slice0_def to_integer_def)





text \<open>
  The example of the specification: of three records, the query \<open>[1, 0]\<close> with limit 2
  gets the first record with score 1 and then the third; the second never appears.
\<close>

lemma cosine_third_record: "cosineSimilarity [1, 0] [9 / 10, 1 / 10] = Inr (9 / 10 / sqrt (41 / 50))"
  by (simp add: cosineSimilarity_def divide_checked_def)

lemma third_record_bounds: "0 < 9 / 10 / sqrt (41 / 50)" "9 / 10 / sqrt (41 / 50) < (1::real)"
proof -
  have "(9 / 10 :: real) = sqrt (81 / 100)" by (simp add: real_sqrt_divide)
  also have "\<dots> < sqrt (41 / 50)" by (subst real_sqrt_less_iff) simp
  finally have lt: "(9 / 10 :: real) < sqrt (41 / 50)" .
  show "0 < 9 / 10 / sqrt (41 / 50)" by simp
  show "9 / 10 / sqrt (41 / 50) < (1::real)" using lt by simp
qed

lemma ranking_example:
  "vectorSearch [1, 0]
     [\<lparr>rec_id = ''record1'', embedding = [1, 0], metadata = Map.empty\<rparr>,
      \<lparr>rec_id = ''record2'', embedding = [0, 1], metadata = Map.empty\<rparr>,
      \<lparr>rec_id = ''record3'', embedding = [9 / 10, 1 / 10], metadata = Map.empty\<rparr>] 2
   = Inr [\<lparr>rec_id = ''record1'', embedding = [1, 0], metadata = Map.empty, similarity = 1\<rparr>,
          \<lparr>rec_id = ''record3'', embedding = [9 / 10, 1 / 10], metadata = Map.empty,
            similarity = 9 / 10 / sqrt (41 / 50)\<rparr>]"
proof -
  have c1: "cosineSimilarity [1, 0] [1, 0] = Inr 1"
    by (simp add: cosineSimilarity_def divide_checked_def)
  have c2: "cosineSimilarity [1, 0] [0, 1] = Inr 0"
    by (simp add: cosineSimilarity_def divide_checked_def)
  note b = third_record_bounds
  have "\<not> 9 / 10 / sqrt (41 / 50) \<le> (0::real)" using b(1) by linarith
  moreover have "\<not> (1::real) \<le> 9 / 10 / sqrt (41 / 50)" using b(2) by linarith
  ultimately show ?thesis
    using b
    by (simp add: vectorSearch_def c1 c2 cosine_third_record with_similarity_def vec_record.extend_def
        scored.fields_def sort_desc_def slice0_def to_integer_def del: divide_le_0_iff)
qed

text \<open>
  C2. Cosine similarity throws exactly when the two vectors differ in length: with
  different lengths it throws \<^verbatim>\<open>Vectors must have the same length\<close>, with equal lengths
  it returns a number. Hence \<^verbatim>\<open>vectorSearch\<close> throws that error when some embedding of
  the collection differs in length from the query, and returns when none does.
\<close>

theorem length_mismatch_raises:
  "(length v \<noteq> length w \<longrightarrow>
      cosineSimilarity v w = Inl (Error ''Vectors must have the same length''))
   \<and> (length v = length w \<longrightarrow> (\<exists>r. cosineSimilarity v w = Inr r))
   \<and> (list_ex (\<lambda>d. length (embedding d) \<noteq> length q) docs \<longrightarrow>
      vectorSearch q docs n = Inl (Error ''Vectors must have the same length''))
   \<and> (list_all (\<lambda>d. length (embedding d) = length q) docs \<longrightarrow>
      (\<exists>rs. vectorSearch q docs n = Inr rs))"
proof (intro conjI impI)
  assume "length v \<noteq> length w"
  then show "cosineSimilarity v w = Inl (Error ''Vectors must have the same length'')"
    by (rule cosineSimilarity_mismatch)
next
  assume "length v = length w"
  then show "\<exists>r. cosineSimilarity v w = Inr r" by (rule cosineSimilarity_returns)
next
  assume "list_ex (\<lambda>d. length (embedding d) \<noteq> length q) docs"
  then show "vectorSearch q docs n = Inl (Error ''Vectors must have the same length'')"
    by (simp add: vectorSearch_def score_documents_mismatch)
next
  assume "list_all (\<lambda>d. length (embedding d) = length q) docs"
  then show "\<exists>rs. vectorSearch q docs n = Inr rs"
    by (simp add: vectorSearch_def score_documents_ok)
qed

theorem length_mismatch_raises_witness:
  "length [1 :: real] \<noteq> length [1, 2 :: real]
   \<and> cosineSimilarity [1] [1, 2] = Inl (Error ''Vectors must have the same length'')
   \<and> list_ex (\<lambda>d. length (embedding d) \<noteq> length [1 :: real])
        [\<lparr>rec_id = ''a'', embedding = [1], metadata = Map.empty\<rparr>,
         \<lparr>rec_id = ''b'', embedding = [1, 2], metadata = Map.empty\<rparr>]
   \<and> vectorSearch [1]
        [\<lparr>rec_id = ''a'', embedding = [1], metadata = Map.empty\<rparr>,
         \<lparr>rec_id = ''b'', embedding = [1, 2], metadata = Map.empty\<rparr>] 5
       = Inl (Error ''Vectors must have the same length'')
   \<and> length [3, 4 :: real] = length [4, 3 :: real]
   \<and> (\<exists>r. cosineSimilarity [3, 4] [4, 3] = Inr r)
   \<and> list_all (\<lambda>d. length (embedding d) = length [3, 4 :: real])
        [\<lparr>rec_id = ''c'', embedding = [4, 3], metadata = Map.empty\<rparr>]
   \<and> (\<exists>rs. vectorSearch [3, 4]
        [\<lparr>rec_id = ''c'', embedding = [4, 3], metadata = Map.empty\<rparr>] 5 = Inr rs)"
  using length_mismatch_raises [of "[1]" "[1, 2]" "[1]"
      "[\<lparr>rec_id = ''a'', embedding = [1], metadata = Map.empty\<rparr>,
        \<lparr>rec_id = ''b'', embedding = [1, 2], metadata = Map.empty\<rparr>]" 5]
    length_mismatch_raises [of "[3, 4]" "[4, 3]" "[3, 4]"
      "[\<lparr>rec_id = ''c'', embedding = [4, 3], metadata = Map.empty\<rparr>]" 5]
  by simp

text \<open>
  C3. For vectors of equal length, a zero magnitude on either side makes the similarity
  exactly 0; and for all vectors of equal length the function returns a number and the
  division is never reached with a zero divisor.
\<close>

theorem zero_magnitude_guard:
  assumes "length v = length w"
  shows "(magnitude v = 0 \<or> magnitude w = 0 \<longrightarrow> cosineSimilarity v w = Inr 0)
         \<and> cosineSimilarity v w \<noteq> Inl DivisionByZero
         \<and> (\<exists>r. cosineSimilarity v w = Inr r)"
  using assms cosineSimilarity_zero_magnitude [of v w] cosineSimilarity_returns [of v w]
    cosineSimilarity_no_zero_division [of v w]
  by blast

theorem zero_magnitude_guard_witness:
  "length [0, 0 :: real] = length [3, 4 :: real]
   \<and> magnitude [0, 0] = 0
   \<and> cosineSimilarity [0, 0] [3, 4] = Inr 0
   \<and> cosineSimilarity [0, 0] [3, 4] \<noteq> Inl DivisionByZero"
proof -
  have h: "length [0, 0 :: real] = length [3, 4 :: real]" by simp
  have m: "magnitude [0, 0] = 0" by (simp add: magnitude_def)
  from zero_magnitude_guard [OF h] m show ?thesis by simp
qed

section \<open>Date filtering and undated records\<close>

lemma date_checks_keep_undated: "m ''date'' = None \<Longrightarrow> \<not> date_checks_skip p m"
  by (simp add: date_checks_skip_def js_lt_def js_gt_def)

lemma filterByDateRange_undated:
  "filter undated (filterByDateRange rs s e) = filter undated rs"
  unfolding filterByDateRange_def undated_def filter_filter
  by (rule filter_cong) (auto simp: truthy_def Let_def split: option.splits)

lemma discord_filter_loop_undated:
  "list_all undated rs \<Longrightarrow>
   discord_filter_loop (p\<lparr>start_date := s, end_date := e\<rparr>) l rs acc
   = discord_filter_loop p l rs acc"
proof (induction rs arbitrary: acc)
  case (Cons r rs)
  then have u: "metadata r ''date'' = None" by (simp add: undated_def)
  have "discord_skips (p\<lparr>start_date := s, end_date := e\<rparr>) (metadata r)
      = discord_skips p (metadata r)"
    using u by (simp add: discord_skips_def date_checks_skip_def js_lt_def js_gt_def)
  with Cons show ?case by (simp add: Let_def)
qed simp

lemma metadata_with_similarity [simp]: "metadata (with_similarity d s) = metadata d"
  by (simp add: with_similarity_def vec_record.extend_def scored.fields_def)

lemma similarity_with_similarity [simp]: "similarity (with_similarity d s) = s"
  by (simp add: with_similarity_def vec_record.extend_def scored.fields_def)

lemma score_documents_metadata:
  "score_documents q docs = Inr rs \<Longrightarrow> map metadata rs = map metadata docs"
  by (induction docs arbitrary: rs) (auto split: sum.splits)

lemma set_slice0: "set (slice0 n xs) \<subseteq> set xs"
  by (auto simp: slice0_def Let_def dest: in_set_takeD)

lemma undated_via_metadata:
  "list_all undated rs = list_all (\<lambda>m. m ''date'' = None) (map metadata rs)"
  by (simp add: list_all_iff undated_def)

lemma vectorSearch_undated:
  assumes "vectorSearch q docs n = Inr rs" and "list_all undated docs"
  shows "list_all undated rs"
proof -
  from assms(1) obtain scored_docs where a: "score_documents q docs = Inr scored_docs"
    and rs: "rs = slice0 n (sort_desc similarity scored_docs)"
    by (auto simp: vectorSearch_def split: sum.splits)
  have "map metadata scored_docs = map metadata docs" using a by (rule score_documents_metadata)
  then have "list_all undated scored_docs"
    using assms(2) by (simp add: undated_via_metadata[of scored_docs] undated_via_metadata[of docs])
  moreover have "set rs \<subseteq> set scored_docs"
    using rs set_slice0[of n "sort_desc similarity scored_docs"] by (simp add: sort_desc_def)
  ultimately show ?thesis unfolding list_all_iff by blast
qed

lemma discordSemanticSearch_undated:
  assumes v: "vectors env = Inr docs" and u: "list_all undated docs"
  shows "map_sum id results (discordSemanticSearch env (p\<lparr>start_date := s, end_date := e\<rparr>))
       = map_sum id results (discordSemanticSearch env p)"
proof (cases "truthy (query p)")
  case False
  then show ?thesis by (simp add: discordSemanticSearch_def)
next
  case True
  show ?thesis
  proof (cases "generateEmbedding env (the (query p))")
    case (Inl err)
    with True v show ?thesis by (simp add: discordSemanticSearch_def)
  next
    case qv: (Inr qv)
    show ?thesis
    proof (cases "vectorSearch qv docs (limit_or_default p * 2)")
      case (Inl err)
      with True v qv show ?thesis by (simp add: discordSemanticSearch_def limit_or_default_def)
    next
      case (Inr rs)
      then have "list_all undated rs" using u by (rule vectorSearch_undated)
      then have "discord_filter_loop (p\<lparr>start_date := s, end_date := e\<rparr>) (limit_or_default p) rs []
               = discord_filter_loop p (limit_or_default p) rs []"
        by (rule discord_filter_loop_undated)
      with True v qv Inr show ?thesis
        by (simp add: discordSemanticSearch_def limit_or_default_def Let_def)
    qed
  qed
qed

text \<open>
  C10. Date-range filtering never drops a record without a date, whatever the bounds:
  \<^verbatim>\<open>filterByDateRange\<close> returns every undated record of its input (in order, with
  multiplicity); the two inline date checks of the Discord semantic search never skip an
  undated record; and on a collection of undated records the result list of that search
  is the same with and without \<^verbatim>\<open>start_date\<close> and \<^verbatim>\<open>end_date\<close>.
\<close>

theorem undated_records_retained:
  "filter undated (filterByDateRange rs startDate endDate) = filter undated rs
   \<and> (undated r \<longrightarrow> \<not> date_checks_skip p (metadata r))
   \<and> (vectors env = Inr docs \<and> list_all undated docs \<longrightarrow>
        map_sum id results (discordSemanticSearch env (p\<lparr>start_date := s, end_date := e\<rparr>))
        = map_sum id results (discordSemanticSearch env p))"
  using filterByDateRange_undated [of rs startDate endDate]
    date_checks_keep_undated [of "metadata r" p]
    discordSemanticSearch_undated [where env = env and docs = docs and p = p and s = s and e = e]
  by (simp add: undated_def)

theorem undated_records_retained_witness:
  "undated \<lparr>rec_id = ''m1'', embedding = [1, 0 :: real],
            metadata = [''text'' \<mapsto> ''hello world'', ''author'' \<mapsto> ''ann'']\<rparr>
   \<and> \<not> date_checks_skip dated_params
        (metadata \<lparr>rec_id = ''m1'', embedding = [1, 0 :: real],
            metadata = [''text'' \<mapsto> ''hello world'', ''author'' \<mapsto> ''ann'']\<rparr>)
   \<and> vectors example_env = Inr [\<lparr>rec_id = ''m1'', embedding = [1, 0],
            metadata = [''text'' \<mapsto> ''hello world'', ''author'' \<mapsto> ''ann'']\<rparr>]
   \<and> list_all undated [\<lparr>rec_id = ''m1'', embedding = [1, 0 :: real],
            metadata = [''text'' \<mapsto> ''hello world'', ''author'' \<mapsto> ''ann'']\<rparr>]
   \<and> map_sum id results (discordSemanticSearch example_env
          (dated_params\<lparr>start_date := None, end_date := None\<rparr>))
     = map_sum id results (discordSemanticSearch example_env dated_params)"
proof -
  let ?r = "\<lparr>rec_id = ''m1'', embedding = [1, 0 :: real],
            metadata = [''text'' \<mapsto> ''hello world'', ''author'' \<mapsto> ''ann'']\<rparr>"
  have u: "undated ?r" by (simp add: undated_def)
  have v: "vectors example_env = Inr [?r]" by (simp add: example_env_def)
  have a: "list_all undated [?r]" using u by simp
  from undated_records_retained [where r = "?r" and env = example_env and docs = "[?r]"
      and p = dated_params and s = None and e = None
      and rs = "[]" and startDate = None and endDate = None] u v a
  show ?thesis by blast
qed

section \<open>Hybrid search against semantic search\<close>

lemma passes_semantic_call: "passes (semantic_call p) = passes p"
  by (rule ext) (simp add: passes_def semantic_call_def discord_skips_def date_checks_skip_def)

lemma ceiling_between:
  fixes l :: real
  assumes "real n < l" and "l \<le> real n + 1"
  shows "nat \<lceil>l\<rceil> = n + 1"
proof -
  have "\<lceil>l\<rceil> = int n + 1" using assms by (intro ceiling_unique) simp_all
  then show ?thesis by simp
qed

lemma ceiling_beyond:
  fixes l :: real
  assumes "real n + 1 < l"
  shows "n + 2 \<le> nat \<lceil>l\<rceil>"
proof -
  have "l \<le> of_int \<lceil>l\<rceil>" by (rule le_of_int_ceiling)
  with assms have "real n + 1 < of_int \<lceil>l\<rceil>" by linarith
  then have "real_of_int (int n + 1) < of_int \<lceil>l\<rceil>" by simp
  then have "int n + 1 < \<lceil>l\<rceil>" by (simp only: of_int_less_iff)
  then show ?thesis by linarith
qed

lemma discord_filter_loop_take:
  "real (length acc) < l \<Longrightarrow>
   discord_filter_loop p l rs acc
   = acc @ map discord_hit (take (nat \<lceil>l\<rceil> - length acc) (filter (passes p) rs))"
proof (induction rs arbitrary: acc)
  case Nil
  then show ?case by simp
next
  case (Cons r rs)
  show ?case
  proof (cases "discord_skips p (metadata r)")
    case True
    with Cons show ?thesis by (simp add: passes_def)
  next
    case False
    show ?thesis
    proof (cases "l \<le> real (length acc) + 1")
      case True
      with Cons.prems have "nat \<lceil>l\<rceil> = length acc + 1" by (rule ceiling_between)
      then have "nat \<lceil>l\<rceil> - length acc = 1" by simp
      with True False show ?thesis by (simp add: passes_def Let_def)
    next
      case False': False
      then have lt: "real (length (acc @ [discord_hit r])) < l" by simp
      from False' have "length acc + 2 \<le> nat \<lceil>l\<rceil>" by (intro ceiling_beyond) simp
      then have "nat \<lceil>l\<rceil> - length acc = Suc (nat \<lceil>l\<rceil> - length (acc @ [discord_hit r]))"
        by simp
      with Cons.IH[OF lt] False False' show ?thesis by (simp add: passes_def Let_def)
    qed
  qed
qed

lemma filter_loop_after_search:
  assumes "0 \<le> l"
  shows "discord_filter_loop p l (slice0 (l * 2) S) [] = semantic_hits p l S"
proof (cases "l = 0")
  case True
  then show ?thesis by (simp add: slice0_def to_integer_def semantic_hits_def)
next
  case False
  with assms have "real (length ([] :: hit list)) < l" by simp
  from discord_filter_loop_take[OF this] assms show ?thesis
    by (simp add: slice0_nonneg semantic_hits_def)
qed

lemma discordSemanticSearch_results:
  assumes "discordSemanticSearch env p = Inr r" and "0 \<le> limit_or_default p"
  shows "\<exists>docs qv scored_docs.
           truthy (query p) \<and> vectors env = Inr docs
           \<and> generateEmbedding env (the (query p)) = Inr qv
           \<and> score_documents qv docs = Inr scored_docs
           \<and> results r = semantic_hits p (limit_or_default p) (sort_desc similarity scored_docs)"
proof -
  from assms(1) have q: "truthy (query p)"
    by (auto simp: discordSemanticSearch_def split: if_splits)
  from assms(1) q obtain docs where d: "vectors env = Inr docs"
    by (auto simp: discordSemanticSearch_def split: sum.splits)
  from assms(1) q d obtain qv where e: "generateEmbedding env (the (query p)) = Inr qv"
    by (auto simp: discordSemanticSearch_def split: sum.splits)
  from assms(1) q d e obtain rs where v: "vectorSearch qv docs (limit_or_default p * 2) = Inr rs"
    by (auto simp: discordSemanticSearch_def split: sum.splits)
  then obtain scored_docs where s: "score_documents qv docs = Inr scored_docs"
    and rs: "rs = slice0 (limit_or_default p * 2) (sort_desc similarity scored_docs)"
    by (auto simp: vectorSearch_def split: sum.splits)
  from assms(1) q d e v have "results r = discord_filter_loop p (limit_or_default p) rs []"
    by (auto simp: discordSemanticSearch_def Let_def)
  with rs assms(2) have "results r = semantic_hits p (limit_or_default p) (sort_desc similarity scored_docs)"
    by (simp add: filter_loop_after_search)
  with q d e s show ?thesis by blast
qed

lemma discordSemanticSearch_returns:
  assumes "truthy (query p)" and "vectors env = Inr docs"
    and "generateEmbedding env (the (query p)) = Inr qv"
    and "score_documents qv docs = Inr scored_docs"
  shows "\<exists>r. discordSemanticSearch env p = Inr r"
  using assms by (simp add: discordSemanticSearch_def vectorSearch_def Let_def)

lemma hybrid_results_weight_one:
  "hybrid_results engine keywords 1 H = Inr hs \<Longrightarrow>
   map hit.truncate hs = H \<and> map hybrid_score hs = map hit_similarity H"
proof (induction H arbitrary: hs)
  case Nil
  then show ?case by simp
next
  case (Cons h H)
  from Cons.prems obtain x xs where x: "hybrid_result engine keywords 1 h = Inr x"
    and xs: "hybrid_results engine keywords 1 H = Inr xs" and hs: "hs = x # xs"
    by (auto split: sum.splits)
  from x have "hit.truncate x = h \<and> hybrid_score x = hit_similarity h"
    by (auto simp: hybrid_result_def Let_def hit.extend_def hit.truncate_def hybrid_hit.fields_def
        split: option.splits sum.splits)
  with Cons.IH[OF xs] hs show ?case by simp
qed

lemma similarity_discord_hit [simp]: "hit_similarity (discord_hit r) = similarity r"
  by (simp add: discord_hit_def)

lemma sort_desc_already_sorted:
  assumes "sorted_wrt (\<lambda>a b. b \<le> a) (map key xs)"
  shows "sort_desc key xs = xs"
proof -
  have "sorted (map (\<lambda>x. - key x) xs)" using assms by (simp add: sorted_wrt_map)
  then show ?thesis unfolding sort_desc_def by (rule sort_key_id_if_sorted)
qed

lemma semantic_hits_sorted:
  "sorted_wrt (\<lambda>a b. b \<le> a) (map hit_similarity (semantic_hits p l (sort_desc similarity xs)))"
proof -
  have "sorted_wrt (\<lambda>a b. similarity b \<le> similarity a) (sort_desc similarity xs)"
    by (rule sort_desc_sorted)
  then have "sorted_wrt (\<lambda>a b. similarity b \<le> similarity a)
     (take (nat \<lceil>l\<rceil>) (filter (passes p) (take (nat \<lfloor>l * 2\<rfloor>) (sort_desc similarity xs))))"
    by (intro sorted_wrt_take sorted_wrt_filter)
  then show ?thesis by (simp add: semantic_hits_def sorted_wrt_map)
qed

text \<open>
  The first \<open>\<lfloor>l\<rfloor>\<close> results of the search at limit \<open>l\<close> open the search at limit \<open>2 l\<close>.
\<close>

lemma semantic_hits_prefix:
  fixes l :: real
  assumes "0 \<le> l"
  shows "prefix (take (nat \<lfloor>l\<rfloor>) (semantic_hits p l S))
                (take (nat \<lfloor>l\<rfloor>) (semantic_hits p (l * 2) S))"
proof -
  let ?A = "filter (passes p) (take (nat \<lfloor>l * 2\<rfloor>) S)"
  let ?B = "filter (passes p) (take (nat \<lfloor>l * 2 * 2\<rfloor>) S)"
  have "\<lfloor>l * 2\<rfloor> \<le> \<lfloor>l * 2 * 2\<rfloor>" using assms by (intro floor_mono) simp
  then have "nat \<lfloor>l * 2\<rfloor> \<le> nat \<lfloor>l * 2 * 2\<rfloor>" by simp
  then have "take (nat \<lfloor>l * 2\<rfloor>) S = take (nat \<lfloor>l * 2\<rfloor>) (take (nat \<lfloor>l * 2 * 2\<rfloor>) S)"
    by (simp add: min_def)
  then have "prefix (take (nat \<lfloor>l * 2\<rfloor>) S) (take (nat \<lfloor>l * 2 * 2\<rfloor>) S)"
    by (metis take_is_prefix)
  then have "prefix ?A ?B" by (rule filter_mono_prefix)
  then obtain zs where B: "?B = ?A @ zs" by (auto simp: prefix_def)
  have c1: "nat \<lfloor>l\<rfloor> \<le> nat \<lceil>l\<rceil>" by (simp add: floor_le_ceiling nat_mono)
  have "\<lceil>l\<rceil> \<le> \<lceil>l * 2\<rceil>" using assms by (intro ceiling_mono) simp
  with floor_le_ceiling[of l] have "\<lfloor>l\<rfloor> \<le> \<lceil>l * 2\<rceil>" by (rule order_trans)
  then have c2: "nat \<lfloor>l\<rfloor> \<le> nat \<lceil>l * 2\<rceil>" by (rule nat_mono)
  have a: "take (nat \<lfloor>l\<rfloor>) (take (nat \<lceil>l\<rceil>) ?A) = take (nat \<lfloor>l\<rfloor>) ?A"
    using c1 by (simp add: min_def)
  have b: "take (nat \<lfloor>l\<rfloor>) (take (nat \<lceil>l * 2\<rceil>) ?B) = take (nat \<lfloor>l\<rfloor>) ?B"
    using c2 by (simp add: min_def)
  have "prefix (take (nat \<lfloor>l\<rfloor>) ?A) (take (nat \<lfloor>l\<rfloor>) ?B)"
    unfolding B by (simp add: prefix_def)
  then have "prefix (map discord_hit (take (nat \<lfloor>l\<rfloor>) ?A)) (map discord_hit (take (nat \<lfloor>l\<rfloor>) ?B))"
    by (rule map_mono_prefix)
  then show ?thesis
    unfolding semantic_hits_def take_map a b .
qed

lemma whole_number_ceiling:
  assumes "whole_number l"
  shows "\<lceil>l\<rceil> = \<lfloor>l\<rfloor>"
proof -
  from assms have "l = of_int \<lfloor>l\<rfloor>" by (simp add: whole_number_def)
  then have "\<lceil>l\<rceil> = \<lceil>(of_int \<lfloor>l\<rfloor> :: real)\<rceil>" by simp
  then show ?thesis by (simp only: ceiling_of_int)
qed

lemma semantic_hits_whole:
  assumes "whole_number l"
  shows "take (nat \<lfloor>l\<rfloor>) (semantic_hits p l S) = semantic_hits p l S"
  by (simp add: semantic_hits_def whole_number_ceiling[OF assms])

lemma take_prefix_full:
  assumes "prefix xs (take n ys)" and "length xs = n"
  shows "xs = take n ys"
proof -
  from assms(1) obtain zs where z: "take n ys = xs @ zs" by (auto simp: prefix_def)
  then have "length (xs @ zs) \<le> n" by (metis length_take min.cobounded2)
  with assms(2) have "zs = []" by simp
  with z show ?thesis by simp
qed

lemma semantic_hits_no_filters:
  assumes "0 \<le> l" and "whole_number l" and "no_filters p"
  shows "semantic_hits p l S = take (nat \<lfloor>l\<rfloor>) (semantic_hits p (l * 2) S)"
proof -
  have pass: "passes p = (\<lambda>r. True)"
    using assms(3)
    by (auto simp: passes_def no_filters_def discord_skips_def date_checks_skip_def)
  define k where "k = \<lfloor>l\<rfloor>"
  from assms(2) have l: "l = of_int k" by (simp add: whole_number_def k_def)
  with assms(1) have k: "0 \<le> k" by simp
  have f1: "\<lceil>l\<rceil> = k" unfolding l by (rule ceiling_of_int)
  have f2: "\<lfloor>l * 2\<rfloor> = k * 2" unfolding l by (intro floor_unique) simp_all
  have f3: "\<lceil>l * 2\<rceil> = k * 2" unfolding l by (intro ceiling_unique) simp_all
  have f4: "\<lfloor>l * 2 * 2\<rfloor> = k * 2 * 2" unfolding l by (intro floor_unique) simp_all
  note f = f1 f2 f3 f4
  have n: "nat k \<le> nat (k * 2)" "nat (k * 2) \<le> nat (k * 2 * 2)" using k by simp_all
  show ?thesis
    unfolding semantic_hits_def pass f k_def[symmetric]
    using n by (simp add: take_map min_def)
qed

lemma hybrid_returns_cases:
  assumes "discordHybridSearch env p = Inr rh"
  shows "truthy (query p) \<and>
    (\<exists>sr hs. discordSemanticSearch env (semantic_call p) = Inr sr
       \<and> hybrid_results (pattern_engine env) (split_ws (toLowerCase (the (query p))))
             (weight_or_default p) (results sr) = Inr hs
       \<and> results rh = slice0 (limit_or_default p) (sort_desc hybrid_score hs))"
proof (cases "truthy (query p)")
  case False
  with assms show ?thesis by (simp add: discordHybridSearch_def)
next
  case q: True
  show ?thesis
  proof (cases "discordSemanticSearch env (semantic_call p)")
    case (Inl e)
    with assms q show ?thesis by (simp add: discordHybridSearch_def)
  next
    case sr: (Inr sr)
    show ?thesis
    proof (cases "hybrid_results (pattern_engine env) (split_ws (toLowerCase (the (query p))))
                    (weight_or_default p) (results sr)")
      case (Inl e)
      with assms q sr show ?thesis by (simp add: discordHybridSearch_def)
    next
      case (Inr hs)
      with assms q sr have "results rh = slice0 (limit_or_default p) (sort_desc hybrid_score hs)"
        by (auto simp: discordHybridSearch_def Let_def)
      with q sr Inr show ?thesis by simp
    qed
  qed
qed

text \<open>
  C5, as the code has it. For a limit \<open>l \<ge> 0\<close> and \<^verbatim>\<open>semantic_weight = 1\<close>, whenever
  the hybrid search returns a response (for any query, whatever the pattern engine makes
  of its keywords), the semantic search with the same query, filters and limit returns
  too, and its first \<open>\<lfloor>l\<rfloor>\<close> results open the hybrid search's result list (the hybrid
  results stripped of their two extra scores). When \<open>l\<close> is a whole number the whole
  semantic result list is a prefix of the hybrid one, so the common results come in the
  same order, and the two lists are equal when the semantic search returned \<open>l\<close> results
  or when no filter is set.
\<close>

theorem hybrid_weight_one_order:
  assumes "0 \<le> limit_or_default p" and "semantic_weight p = Some 1"
    and "discordHybridSearch env p = Inr rh"
  shows "\<exists>rs. discordSemanticSearch env p = Inr rs
           \<and> prefix (take (nat \<lfloor>limit_or_default p\<rfloor>) (results rs))
                    (map hit.truncate (results rh))
           \<and> (whole_number (limit_or_default p)
                \<longrightarrow> prefix (results rs) (map hit.truncate (results rh)))
           \<and> (whole_number (limit_or_default p)
                \<and> (real (length (results rs)) = limit_or_default p \<or> no_filters p)
                \<longrightarrow> results rs = map hit.truncate (results rh))"
proof -
  let ?l = "limit_or_default p"
  have w: "weight_or_default p = 1" using assms(2) by (simp add: weight_or_default_def)
  from hybrid_returns_cases[OF assms(3)] w obtain sr hs where q: "truthy (query p)"
    and sr: "discordSemanticSearch env (semantic_call p) = Inr sr"
    and hs: "hybrid_results (pattern_engine env) (split_ws (toLowerCase (the (query p)))) 1
               (results sr) = Inr hs"
    and rh: "results rh = slice0 ?l (sort_desc hybrid_score hs)"
    by auto
  have l2: "limit_or_default (semantic_call p) = ?l * 2"
    by (simp add: semantic_call_def limit_or_default_def)
  have q2: "query (semantic_call p) = query p" by (simp add: semantic_call_def)
  from assms(1) have l2pos: "0 \<le> limit_or_default (semantic_call p)" unfolding l2 by simp
  from discordSemanticSearch_results[OF sr l2pos] l2 q2
  obtain docs qv scored_docs where d: "vectors env = Inr docs"
    and e: "generateEmbedding env (the (query p)) = Inr qv"
    and s: "score_documents qv docs = Inr scored_docs"
    and H: "results sr = semantic_hits (semantic_call p) (?l * 2) (sort_desc similarity scored_docs)"
    by auto
  let ?S = "sort_desc similarity scored_docs"
  have H': "results sr = semantic_hits p (?l * 2) ?S"
    using H by (simp add: semantic_hits_def passes_semantic_call)
  from discordSemanticSearch_returns[OF q d e s] obtain rs
    where rs: "discordSemanticSearch env p = Inr rs" by blast
  from discordSemanticSearch_results[OF rs assms(1)] d e s
  have R: "results rs = semantic_hits p ?l ?S" by auto
  from hybrid_results_weight_one[OF hs]
  have t: "map hit.truncate hs = results sr" and k: "map hybrid_score hs = map hit_similarity (results sr)"
    by simp_all
  have "sorted_wrt (\<lambda>a b. b \<le> a) (map hybrid_score hs)"
    unfolding k H' by (rule semantic_hits_sorted)
  then have "sort_desc hybrid_score hs = hs" by (rule sort_desc_already_sorted)
  with rh assms(1) have "results rh = take (nat \<lfloor>?l\<rfloor>) hs" by (simp add: slice0_nonneg)
  then have T: "map hit.truncate (results rh) = take (nat \<lfloor>?l\<rfloor>) (semantic_hits p (?l * 2) ?S)"
    using t H' by (simp flip: take_map)
  have P0: "prefix (take (nat \<lfloor>?l\<rfloor>) (results rs)) (map hit.truncate (results rh))"
    unfolding R T using assms(1) by (rule semantic_hits_prefix)
  have P: "prefix (results rs) (map hit.truncate (results rh))" if "whole_number ?l"
    using P0 semantic_hits_whole[OF that, of p ?S] by (simp add: R)
  have E1: "results rs = map hit.truncate (results rh)"
    if "whole_number ?l" and "real (length (results rs)) = ?l"
  proof -
    from that(2) have "\<lfloor>?l\<rfloor> = int (length (results rs))" by (metis floor_of_nat)
    then have "length (results rs) = nat \<lfloor>?l\<rfloor>" by simp
    with P[OF that(1), unfolded T] have "results rs = take (nat \<lfloor>?l\<rfloor>) (semantic_hits p (?l * 2) ?S)"
      by (rule take_prefix_full)
    then show ?thesis by (simp add: T)
  qed
  have E2: "results rs = map hit.truncate (results rh)" if "whole_number ?l" and "no_filters p"
    unfolding R T using assms(1) that by (rule semantic_hits_no_filters)
  from rs P0 P E1 E2 show ?thesis by blast
qed

lemma cosine_unit: "cosineSimilarity [1, 0] [1, 0] = Inr 1"
  by (simp add: cosineSimilarity_def divide_checked_def)

lemma scored_three:
  "score_documents [1, 0] three_messages = Inr (map (\<lambda>d. with_similarity d 1) three_messages)"
  by (simp add: three_messages_def cosine_unit)

lemma sort_three:
  "sort_desc similarity (map (\<lambda>d. with_similarity d 1) three_messages)
   = map (\<lambda>d. with_similarity d 1) three_messages"
  by (rule sort_desc_already_sorted) (simp add: three_messages_def)

lemma vs_three: "vectorSearch [1, 0] three_messages n
   = Inr (slice0 n (map (\<lambda>d. with_similarity d 1) three_messages))"
  by (simp add: vectorSearch_def scored_three sort_three)

lemma semantic_filtered_empty:
  "map_sum id (map hit_text \<circ> results) (discordSemanticSearch filtered_env filtered_params) = Inr []"
  unfolding discordSemanticSearch_def filtered_env_def filtered_params_def
  apply (simp add: truthy_def limit_or_default_def vs_three)
  apply (simp add: slice0_def to_integer_def three_messages_def discord_skips_def
      date_checks_skip_def truthy_def)
  done

lemma hybrid_filtered_one:
  "map_sum id (map hit_text \<circ> results) (discordHybridSearch filtered_env filtered_params)
   = Inr [Some ''z'']"
  unfolding discordHybridSearch_def discordSemanticSearch_def filtered_env_def filtered_params_def
    semantic_call_def
  apply (simp add: truthy_def limit_or_default_def vs_three)
  apply (simp add: slice0_def to_integer_def three_messages_def discord_skips_def
      date_checks_skip_def truthy_def discord_hit_def discord_filters_echo_def or_else_def)
  apply (simp add: toLowerCase_def lower_char_def is_space_def hybrid_result_def
      compile_keyword_def quantifier_char_def syntax_char_def weight_or_default_def
      hit.extend_def hybrid_hit.fields_def sort_desc_def slice0_def to_integer_def
      limit_or_default_def)
  done

text \<open>
  C5 as stated fails: the hybrid search takes its candidates from the \<open>4 l\<close> best
  records (a semantic search at limit \<open>2 l\<close>), the semantic search from the \<open>2 l\<close>
  best. With limit 1, weight 1 and an author filter that only the third-best record
  passes, the semantic search returns nothing and the hybrid search returns that record.
\<close>

theorem hybrid_weight_one_counterexample:
  "semantic_weight filtered_params = Some 1
   \<and> map_sum id (map hit_text \<circ> results)
        (discordSemanticSearch filtered_env filtered_params) = Inr []
   \<and> map_sum id (map hit_text \<circ> results)
        (discordHybridSearch filtered_env filtered_params) = Inr [Some ''z'']"
  using semantic_filtered_empty hybrid_filtered_one by (simp add: filtered_params_def)

text \<open>
  A limit with a fraction separates the two searches even without a filter: the loop of
  the semantic search stops once it holds at least \<open>l\<close> results, the hybrid search cuts
  its list with \<^verbatim>\<open>slice(0, l)\<close>. At limit \<open>1/2\<close> over the three messages the semantic
  search returns the best record and the hybrid search nothing.
\<close>

lemma hybrid_fractional_limit:
  "map_sum id (map hit_text \<circ> results)
      (discordSemanticSearch filtered_env (half_limit_params)) = Inr [Some ''x'']
   \<and> map_sum id (map hit_text \<circ> results)
      (discordHybridSearch filtered_env (half_limit_params)) = Inr []"
proof
  show "map_sum id (map hit_text \<circ> results)
      (discordSemanticSearch filtered_env (half_limit_params)) = Inr [Some ''x'']"
    unfolding discordSemanticSearch_def filtered_env_def half_limit_params_def
      filtered_params_def
    apply (simp add: truthy_def limit_or_default_def vs_three)
    apply (simp add: slice0_def to_integer_def three_messages_def discord_skips_def
        date_checks_skip_def truthy_def discord_hit_def)
    done
  show "map_sum id (map hit_text \<circ> results)
      (discordHybridSearch filtered_env (half_limit_params)) = Inr []"
    unfolding discordHybridSearch_def discordSemanticSearch_def filtered_env_def
      half_limit_params_def filtered_params_def semantic_call_def
    apply (simp add: truthy_def limit_or_default_def vs_three)
    apply (simp add: slice0_def to_integer_def three_messages_def discord_skips_def
        date_checks_skip_def truthy_def discord_hit_def discord_filters_echo_def or_else_def)
    apply (simp add: toLowerCase_def lower_char_def is_space_def hybrid_result_def
        compile_keyword_def quantifier_char_def syntax_char_def weight_or_default_def
        hit.extend_def hybrid_hit.fields_def sort_desc_def slice0_def to_integer_def
        limit_or_default_def)
    done
qed

lemma vectorSearch_example:
  "vectorSearch [1, 0] [\<lparr>rec_id = ''m1'', embedding = [1, 0],
       metadata = [''text'' \<mapsto> ''hello world'', ''author'' \<mapsto> ''ann'']\<rparr>] n
   = Inr (slice0 n [\<lparr>rec_id = ''m1'', embedding = [1, 0],
       metadata = [''text'' \<mapsto> ''hello world'', ''author'' \<mapsto> ''ann''], similarity = 1\<rparr>])"
  by (simp add: vectorSearch_def cosine_unit with_similarity_def vec_record.extend_def
      scored.fields_def sort_desc_def)

text \<open>
  The hybrid search returns for the query \<^verbatim>\<open>what?\<close>, whose keyword the engine of the
  environment takes care of.
\<close>

lemma hybrid_example_returns:
  "\<exists>rh. discordHybridSearch example_env weight_one_params = Inr rh"
  unfolding discordHybridSearch_def discordSemanticSearch_def example_env_def example_params_def
    weight_one_params_def semantic_call_def
  apply (simp add: truthy_def limit_or_default_def vectorSearch_example slice0_def to_integer_def)
  apply (simp add: discord_skips_def date_checks_skip_def truthy_def
      discord_hit_def discord_filters_echo_def or_else_def)
  apply (simp add: toLowerCase_def lower_char_def is_space_def hybrid_result_def
      compile_keyword_def quantifier_char_def syntax_char_def weight_or_default_def
      hit.extend_def hybrid_hit.fields_def sort_desc_def slice0_def to_integer_def
      limit_or_default_def)
  done

theorem hybrid_weight_one_order_witness:
  "0 \<le> limit_or_default weight_one_params
   \<and> semantic_weight weight_one_params = Some 1
   \<and> whole_number (limit_or_default weight_one_params)
   \<and> no_filters weight_one_params
   \<and> (\<exists>rh rs. discordHybridSearch example_env weight_one_params = Inr rh
        \<and> discordSemanticSearch example_env weight_one_params = Inr rs
        \<and> prefix (take (nat \<lfloor>limit_or_default weight_one_params\<rfloor>) (results rs))
                 (map hit.truncate (results rh))
        \<and> prefix (results rs) (map hit.truncate (results rh))
        \<and> results rs = map hit.truncate (results rh))"
proof -
  have h1: "0 \<le> limit_or_default weight_one_params"
    by (simp add: weight_one_params_def example_params_def limit_or_default_def)
  have h2: "semantic_weight weight_one_params = Some 1"
    by (simp add: weight_one_params_def)
  have wn: "whole_number (limit_or_default weight_one_params)"
    by (simp add: weight_one_params_def example_params_def limit_or_default_def whole_number_def)
  have nf: "no_filters weight_one_params"
    by (simp add: weight_one_params_def example_params_def no_filters_def truthy_def)
  from hybrid_example_returns obtain rh
    where h3: "discordHybridSearch example_env weight_one_params = Inr rh" by blast
  from hybrid_weight_one_order [OF h1 h2 h3] wn nf h1 h2 h3 show ?thesis by blast
qed

text \<open>
  For keywords without pattern syntax the hybrid search scores as specified: a match of
  the pattern is an occurrence of the keyword.
\<close>

lemma pattern_items_plain:
  "plain_keyword keyword \<Longrightarrow> pattern_items keyword = Some (map Lit keyword)"
  by (induction keyword) (auto simp: plain_keyword_def syntax_char_def)

lemma compile_keyword_plain:
  assumes "plain_keyword keyword"
  shows "compile_keyword keyword = Pattern (map Lit keyword)"
proof (cases keyword)
  case Nil
  then show ?thesis by (simp add: compile_keyword_def)
next
  case (Cons c cs)
  with assms have "\<not> syntax_char c" by (simp add: plain_keyword_def)
  then have "\<not> quantifier_char c" by (auto simp: syntax_char_def quantifier_char_def)
  with Cons pattern_items_plain[OF assms] show ?thesis by (simp add: compile_keyword_def)
qed

lemma match_here_literal: "match_here (map Lit keyword) t = prefix keyword t"
proof (induction keyword arbitrary: t)
  case Nil
  then show ?case by simp
next
  case (Cons c cs)
  then show ?case by (cases t) auto
qed

lemma count_matches_literal: "count_matches (map Lit keyword) t = occurrences keyword t"
proof (induction "map Lit keyword" t rule: count_matches.induct)
  case 1
  then show ?case by simp
next
  case (2 x t)
  then show ?case by (simp add: match_here_literal)
qed

lemma keyword_matches_plain:
  "list_all plain_keyword kws \<Longrightarrow>
   keyword_matches engine kws t n = Inr (n + (\<Sum>keyword\<leftarrow>kws. occurrences keyword t))"
  by (induction kws arbitrary: n)
    (simp_all add: compile_keyword_plain count_matches_literal)

lemma hybrid_result_plain:
  assumes "list_all plain_keyword keywords" and "hit_text r = Some t"
  shows "\<exists>h. hybrid_result engine keywords w r = Inr h \<and> hit.truncate h = r
              \<and> scored_as_specified keywords w h"
  using assms
  by (simp add: hybrid_result_def keyword_matches_plain Let_def scored_as_specified_def
      spec_keyword_score_def hit.extend_def hit.truncate_def hybrid_hit.fields_def)

lemma hybrid_results_plain:
  assumes "list_all plain_keyword keywords"
  shows "list_all (\<lambda>r. hit_text r \<noteq> None) rs \<Longrightarrow>
         \<exists>hs. hybrid_results engine keywords w rs = Inr hs \<and> map hit.truncate hs = rs
              \<and> list_all (scored_as_specified keywords w) hs"
proof (induction rs)
  case Nil
  then show ?case by simp
next
  case (Cons r rs)
  then obtain t where t: "hit_text r = Some t" by auto
  from hybrid_result_plain[OF assms t, of engine w] obtain h
    where h: "hybrid_result engine keywords w r = Inr h" "hit.truncate h = r"
      "scored_as_specified keywords w h" by blast
  from Cons obtain hs where hs: "hybrid_results engine keywords w rs = Inr hs"
    "map hit.truncate hs = rs" "list_all (scored_as_specified keywords w) hs" by auto
  from h hs show ?case by simp
qed

lemma hybrid_plain_keywords:
  assumes "truthy (query p)"
    and "list_all plain_keyword (split_ws (toLowerCase (the (query p))))"
    and "discordSemanticSearch env (semantic_call p) = Inr candidates"
    and "list_all (\<lambda>r. hit_text r \<noteq> None) (results candidates)"
  shows "\<exists>rh hs. discordHybridSearch env p = Inr rh
           \<and> map hit.truncate hs = results candidates
           \<and> list_all (scored_as_specified (split_ws (toLowerCase (the (query p))))
                 (weight_or_default p)) hs
           \<and> results rh = slice0 (limit_or_default p) (sort_desc hybrid_score hs)"
proof -
  from hybrid_results_plain[OF assms(2,4), of "pattern_engine env" "weight_or_default p"] obtain hs
    where hs: "hybrid_results (pattern_engine env) (split_ws (toLowerCase (the (query p))))
                 (weight_or_default p) (results candidates) = Inr hs"
      "map hit.truncate hs = results candidates"
      "list_all (scored_as_specified (split_ws (toLowerCase (the (query p))))
                 (weight_or_default p)) hs" by blast
  from assms(1,3) hs(1)
  have "\<exists>rh. discordHybridSearch env p = Inr rh
          \<and> results rh = slice0 (limit_or_default p) (sort_desc hybrid_score hs)"
    by (simp add: discordHybridSearch_def Let_def)
  with hs(2,3) show ?thesis by blast
qed

text \<open>
  C4 at two inputs. The keyword is handed to \<^verbatim>\<open>new RegExp\<close> as it is. For the query
  \<^verbatim>\<open>2 + 2\<close> the keyword \<^verbatim>\<open>+\<close> is rejected and the hybrid search throws once there
  is a candidate to score. For the query \<^verbatim>\<open>h.llo\<close> the candidate \<^verbatim>\<open>hello world\<close>
  gets the keyword score \<open>1/5\<close> (one match of the pattern), where the occurrences of the
  keyword in the text give 0.
\<close>

theorem hybrid_keyword_is_pattern:
  "discordHybridSearch example_env (example_params\<lparr>query := Some ''2 + 2''\<rparr>)
     = Inl (SyntaxError ''Invalid regular expression: Nothing to repeat'')
   \<and> map_sum id (map keyword_score \<circ> results)
        (discordHybridSearch example_env (example_params\<lparr>query := Some ''h.llo''\<rparr>))
     = Inr [1 / 5]
   \<and> spec_keyword_score (split_ws (toLowerCase ''h.llo'')) (toLowerCase ''hello world'') = 0"
proof (intro conjI)
  show "discordHybridSearch example_env (example_params\<lparr>query := Some ''2 + 2''\<rparr>)
     = Inl (SyntaxError ''Invalid regular expression: Nothing to repeat'')"
    unfolding discordHybridSearch_def discordSemanticSearch_def example_env_def example_params_def
      semantic_call_def
    apply (simp add: truthy_def limit_or_default_def vectorSearch_example slice0_def to_integer_def)
    apply (simp add: discord_skips_def date_checks_skip_def truthy_def
        discord_hit_def discord_filters_echo_def or_else_def)
    apply (simp add: toLowerCase_def lower_char_def is_space_def hybrid_result_def
        compile_keyword_def quantifier_char_def syntax_char_def weight_or_default_def)
    done
  show "map_sum id (map keyword_score \<circ> results)
        (discordHybridSearch example_env (example_params\<lparr>query := Some ''h.llo''\<rparr>))
     = Inr [1 / 5]"
    unfolding discordHybridSearch_def discordSemanticSearch_def example_env_def example_params_def
      semantic_call_def
    apply (simp add: truthy_def limit_or_default_def vectorSearch_example slice0_def to_integer_def)
    apply (simp add: discord_skips_def date_checks_skip_def truthy_def
        discord_hit_def discord_filters_echo_def or_else_def)
    apply (simp add: toLowerCase_def lower_char_def is_space_def hybrid_result_def
        compile_keyword_def quantifier_char_def syntax_char_def weight_or_default_def
        line_terminator_def
        hit.extend_def hybrid_hit.fields_def sort_desc_def slice0_def to_integer_def
        limit_or_default_def)
    done
  show "spec_keyword_score (split_ws (toLowerCase ''h.llo'')) (toLowerCase ''hello world'') = 0"
    by (simp add: spec_keyword_score_def toLowerCase_def lower_char_def is_space_def)
qed

section \<open>Partial failure in the unified search\<close>

lemma fst_run_source: "fst (run_source name h p st) = contribution name h p"
  by (simp add: run_source_def search_source_def contribution_def split: sum.splits)

lemma errors_run_source:
  "errors (snd (run_source name h p st)) =
     (if name \<in> set (sources_or_default p)
      then (case h (source_call p) of Inl e \<Rightarrow> (errors st)(name \<mapsto> message e) | Inr r \<Rightarrow> errors st)
      else errors st)"
  by (simp add: run_source_def search_source_def split: sum.splits)

lemma sourceResults_run_source:
  "sourceResults (snd (run_source name h p st)) =
     (if name \<in> set (sources_or_default p)
      then (case h (source_call p) of Inr r \<Rightarrow> (sourceResults st)(name \<mapsto> r) | Inl e \<Rightarrow> sourceResults st)
      else sourceResults st)"
  by (simp add: run_source_def search_source_def split: sum.splits)

lemma unifiedSemanticSearch_unfold:
  assumes "truthy (query p)"
  shows "unifiedSemanticSearch h1 h2 h3 p =
    Inr \<lparr>unified_query = the (query p),
         unified_total_results = int (length (slice0 (limit_or_default p)
            (sort_desc hit_similarity
              (contribution ''discord'' h1 p @ contribution ''docs'' h2 p
               @ contribution ''knowledge'' h3 p)))),
         unified_results = slice0 (limit_or_default p)
            (sort_desc hit_similarity
              (contribution ''discord'' h1 p @ contribution ''docs'' h2 p
               @ contribution ''knowledge'' h3 p)),
         unified_search_type = ''unified_semantic'',
         sources_searched = sources_or_default p,
         source_counts =
           [''discord'' \<mapsto> count_of (final_state h1 h2 h3 p) ''discord'',
            ''docs'' \<mapsto> count_of (final_state h1 h2 h3 p) ''docs'',
            ''knowledge'' \<mapsto> count_of (final_state h1 h2 h3 p) ''knowledge''],
         response_errors =
           (if errors (final_state h1 h2 h3 p) = Map.empty then None
            else Some (errors (final_state h1 h2 h3 p)))\<rparr>"
  using assms
  by (simp add: unifiedSemanticSearch_def final_state_def Let_def split_beta
      fst_run_source)

lemma errors_final_state:
  assumes "known_source name" and "name \<in> set (sources_or_default p)"
    and "handler_of h1 h2 h3 name (source_call p) = Inl err"
  shows "errors (final_state h1 h2 h3 p) name = Some (message err)"
  using assms
  by (auto simp: final_state_def errors_run_source known_source_def handler_of_def
      split: sum.splits)

lemma sourceResults_final_state_failed:
  assumes "known_source name" and "name \<in> set (sources_or_default p)"
    and "handler_of h1 h2 h3 name (source_call p) = Inl err"
  shows "sourceResults (final_state h1 h2 h3 p) name = None"
  using assms
  by (auto simp: final_state_def sourceResults_run_source known_source_def handler_of_def
      split: sum.splits)

lemma sourceResults_final_state_ok:
  assumes "known_source name" and "name \<in> set (sources_or_default p)"
    and "handler_of h1 h2 h3 name (source_call p) = Inr r"
  shows "sourceResults (final_state h1 h2 h3 p) name = Some r"
  using assms
  by (auto simp: final_state_def sourceResults_run_source known_source_def handler_of_def
      split: sum.splits)

lemma errors_final_state_ok:
  assumes "known_source name" and "name \<in> set (sources_or_default p)"
    and "handler_of h1 h2 h3 name (source_call p) = Inr r"
  shows "errors (final_state h1 h2 h3 p) name = None"
  using assms
  by (auto simp: final_state_def errors_run_source known_source_def handler_of_def
      split: sum.splits)

lemma slice0_all:
  assumes "0 \<le> n" and "real (length xs) \<le> n"
  shows "slice0 n xs = xs"
proof -
  from assms(2) have "int (length xs) \<le> \<lfloor>n\<rfloor>" by (simp add: le_floor_iff)
  then have "length xs \<le> nat \<lfloor>n\<rfloor>" by simp
  with assms(1) show ?thesis by (simp add: slice0_nonneg)
qed

lemma contribution_failed:
  "h (source_call p) = Inl err \<Longrightarrow> contribution name h p = []"
  by (simp add: contribution_def)

lemma contribution_ok:
  "name \<in> set (sources_or_default p) \<Longrightarrow> h (source_call p) = Inr r \<Longrightarrow>
   contribution name h p = map (tag name) (results r)"
  by (simp add: contribution_def)

lemma contribution_in_merge:
  assumes "known_source name"
  shows "set (contribution name (handler_of h1 h2 h3 name) p)
         \<subseteq> set (contribution ''discord'' h1 p @ contribution ''docs'' h2 p
                @ contribution ''knowledge'' h3 p)"
  using assms by (auto simp: known_source_def handler_of_def)

text \<open>
  C6. In a unified search with a non-empty query where a requested source \<open>failing\<close>
  throws and a requested source \<open>healthy\<close> returns, the call returns a response and
  throws nothing; the response's \<^verbatim>\<open>errors\<close> map is present and holds the failing source's
  message under its name (and nothing under the healthy one's); \<^verbatim>\<open>source_counts\<close> is 0
  for the failing source and the healthy source's \<^verbatim>\<open>total_results\<close> for the healthy
  one; the failing source contributes nothing to the merged list and the healthy source's
  tagged results are in it; the results returned are the merged list sorted by similarity
  and cut to the limit, so every result of the healthy source is returned when the merged
  list is within the limit.
\<close>

theorem unified_partial_failure:
  assumes "truthy (query p)"
    and "known_source failing" and "failing \<in> set (sources_or_default p)"
    and "handler_of h1 h2 h3 failing (source_call p) = Inl err"
    and "known_source healthy" and "healthy \<in> set (sources_or_default p)"
    and "handler_of h1 h2 h3 healthy (source_call p) = Inr r"
  shows "\<exists>resp em merged.
           unifiedSemanticSearch h1 h2 h3 p = Inr resp
         \<and> response_errors resp = Some em
         \<and> em failing = Some (message err) \<and> em healthy = None
         \<and> source_counts resp failing = Some 0
         \<and> source_counts resp healthy = Some (total_results r)
         \<and> merged = contribution ''discord'' h1 p @ contribution ''docs'' h2 p
                      @ contribution ''knowledge'' h3 p
         \<and> contribution failing (handler_of h1 h2 h3 failing) p = []
         \<and> set (map (tag healthy) (results r)) \<subseteq> set merged
         \<and> unified_results resp
             = slice0 (limit_or_default p) (sort_desc hit_similarity merged)
         \<and> (0 \<le> limit_or_default p \<and> real (length merged) \<le> limit_or_default p
              \<longrightarrow> set (map (tag healthy) (results r)) \<subseteq> set (unified_results resp))"
proof -
  define st where "st = final_state h1 h2 h3 p"
  define merged where "merged = contribution ''discord'' h1 p @ contribution ''docs'' h2 p
                  @ contribution ''knowledge'' h3 p"
  define top where "top = slice0 (limit_or_default p) (sort_desc hit_similarity merged)"
  define resp where "resp = \<lparr>unified_query = the (query p),
         unified_total_results = int (length top),
         unified_results = top,
         unified_search_type = ''unified_semantic'',
         sources_searched = sources_or_default p,
         source_counts =
           [''discord'' \<mapsto> count_of st ''discord'',
            ''docs'' \<mapsto> count_of st ''docs'',
            ''knowledge'' \<mapsto> count_of st ''knowledge''],
         response_errors = (if errors st = Map.empty then None else Some (errors st))\<rparr>"
  have ret: "unifiedSemanticSearch h1 h2 h3 p = Inr resp"
    unfolding resp_def top_def merged_def st_def
    using assms(1) by (rule unifiedSemanticSearch_unfold)
  have e1: "errors st failing = Some (message err)"
    unfolding st_def using assms(2,3,4) by (rule errors_final_state)
  then have ne: "errors st \<noteq> Map.empty" by auto
  then have re: "response_errors resp = Some (errors st)" by (simp add: resp_def)
  have e2: "errors st healthy = None"
    unfolding st_def using assms(5,6,7) by (rule errors_final_state_ok)
  have "sourceResults st failing = None"
    unfolding st_def using assms(2,3,4) by (rule sourceResults_final_state_failed)
  then have c0: "count_of st failing = 0" by (simp add: count_of_def)
  have "sourceResults st healthy = Some r"
    unfolding st_def using assms(5,6,7) by (rule sourceResults_final_state_ok)
  then have c1: "count_of st healthy = total_results r" by (simp add: count_of_def)
  have sc0: "source_counts resp failing = Some 0"
    using assms(2) c0 by (auto simp: known_source_def resp_def)
  have sc1: "source_counts resp healthy = Some (total_results r)"
    using assms(5) c1 by (auto simp: known_source_def resp_def)
  have cf: "contribution failing (handler_of h1 h2 h3 failing) p = []"
    using assms(4) by (rule contribution_failed)
  have "contribution healthy (handler_of h1 h2 h3 healthy) p = map (tag healthy) (results r)"
    using assms(6,7) by (rule contribution_ok)
  with contribution_in_merge[OF assms(5), of h1 h2 h3 p]
  have sub: "set (map (tag healthy) (results r)) \<subseteq> set merged" by (simp add: merged_def)
  have ur: "unified_results resp = top" by (simp add: resp_def)
  have full: "set (map (tag healthy) (results r)) \<subseteq> set (unified_results resp)"
    if "0 \<le> limit_or_default p \<and> real (length merged) \<le> limit_or_default p"
  proof -
    from that have "top = sort_desc hit_similarity merged"
      unfolding top_def by (intro slice0_all) (simp_all add: sort_desc_def)
    then have "set top = set merged" by (simp add: sort_desc_def)
    with sub ur show ?thesis by simp
  qed
  have m: "merged = contribution ''discord'' h1 p @ contribution ''docs'' h2 p
                  @ contribution ''knowledge'' h3 p" by (rule merged_def)
  have ur': "unified_results resp = slice0 (limit_or_default p) (sort_desc hit_similarity merged)"
    using ur by (simp add: top_def)
  from ret re e1 e2 sc0 sc1 m cf sub ur' full show ?thesis by blast
qed

lemma missing_source_fails:
  "discordSemanticSearch missing_env (source_call two_sources_params)
   = Inl (Error ''Discord vector database not initialized. Run: npm run index-discord'')"
  by (simp add: discordSemanticSearch_def missing_env_def source_call_def
      two_sources_params_def example_params_def truthy_def)

lemma loaded_source_returns:
  "\<exists>r. discordSemanticSearch example_env (source_call two_sources_params) = Inr r
        \<and> length (results r) = 1 \<and> total_results r = 1"
  unfolding discordSemanticSearch_def example_env_def source_call_def two_sources_params_def
    example_params_def
  apply (simp add: truthy_def limit_or_default_def vectorSearch_example slice0_def to_integer_def)
  apply (simp add: discord_skips_def date_checks_skip_def truthy_def)
  done

theorem unified_partial_failure_witness:
  "truthy (query two_sources_params)
   \<and> known_source ''discord'' \<and> ''discord'' \<in> set (sources_or_default two_sources_params)
   \<and> handler_of (discordSemanticSearch missing_env) (discordSemanticSearch example_env)
        (discordSemanticSearch missing_env) ''discord'' (source_call two_sources_params)
       = Inl (Error ''Discord vector database not initialized. Run: npm run index-discord'')
   \<and> known_source ''docs'' \<and> ''docs'' \<in> set (sources_or_default two_sources_params)
   \<and> (\<exists>r resp em.
        handler_of (discordSemanticSearch missing_env) (discordSemanticSearch example_env)
          (discordSemanticSearch missing_env) ''docs'' (source_call two_sources_params) = Inr r
        \<and> unifiedSemanticSearch (discordSemanticSearch missing_env)
            (discordSemanticSearch example_env) (discordSemanticSearch missing_env)
            two_sources_params = Inr resp
        \<and> response_errors resp = Some em
        \<and> em ''discord''
            = Some ''Discord vector database not initialized. Run: npm run index-discord''
        \<and> em ''docs'' = None
        \<and> source_counts resp ''discord'' = Some 0
        \<and> source_counts resp ''docs'' = Some 1
        \<and> set (map (tag ''docs'') (results r)) \<subseteq> set (unified_results resp))"
proof -
  let ?h1 = "discordSemanticSearch missing_env" and ?h2 = "discordSemanticSearch example_env"
  let ?p = two_sources_params
  have q: "truthy (query ?p)"
    by (simp add: two_sources_params_def example_params_def truthy_def)
  have k1: "known_source ''discord''" and k2: "known_source ''docs''"
    by (simp_all add: known_source_def)
  have s1: "''discord'' \<in> set (sources_or_default ?p)"
    and s2: "''docs'' \<in> set (sources_or_default ?p)"
    by (simp_all add: sources_or_default_def two_sources_params_def)
  have f: "handler_of ?h1 ?h2 ?h1 ''discord'' (source_call ?p)
       = Inl (Error ''Discord vector database not initialized. Run: npm run index-discord'')"
    by (simp add: handler_of_def missing_source_fails)
  from loaded_source_returns obtain r
    where r: "handler_of ?h1 ?h2 ?h1 ''docs'' (source_call ?p) = Inr r"
      and n: "length (results r) = 1" and t: "total_results r = 1"
    by (auto simp: handler_of_def)
  have c1: "contribution ''discord'' ?h1 ?p = []"
    using f by (simp add: contribution_def handler_of_def)
  have c2: "contribution ''docs'' ?h2 ?p = map (tag ''docs'') (results r)"
    using r s2 by (simp add: contribution_def handler_of_def)
  have c3: "contribution ''knowledge'' ?h1 ?p = []"
    by (simp add: contribution_def sources_or_default_def two_sources_params_def)
  have l: "limit_or_default ?p = 20"
    by (simp add: limit_or_default_def two_sources_params_def example_params_def)
  from unified_partial_failure [OF q k1 s1 f k2 s2 r]
  obtain resp em where u: "unifiedSemanticSearch ?h1 ?h2 ?h1 ?p = Inr resp"
    and e: "response_errors resp = Some em"
      "em ''discord'' = Some (message (Error ''Discord vector database not initialized. Run: npm run index-discord''))"
      "em ''docs'' = None"
    and c: "source_counts resp ''discord'' = Some 0"
      "source_counts resp ''docs'' = Some (total_results r)"
    and full: "0 \<le> limit_or_default ?p
        \<and> real (length (contribution ''discord'' ?h1 ?p @ contribution ''docs'' ?h2 ?p
                   @ contribution ''knowledge'' ?h1 ?p)) \<le> limit_or_default ?p
      \<longrightarrow> set (map (tag ''docs'') (results r)) \<subseteq> set (unified_results resp)"
    by blast
  from full have "set (map (tag ''docs'') (results r)) \<subseteq> set (unified_results resp)"
    by (simp add: c1 c2 c3 l n)
  with q k1 k2 s1 s2 f r u e c t show ?thesis by auto
qed

section \<open>Saving a collection\<close>








section \<open>Chunking\<close>

lemma accumulate_length: "length cur \<le> length (accumulate sep ps cur)"
proof (induction ps arbitrary: cur)
  case (Cons p ps)
  have "length cur \<le> length (cur @ (if cur \<noteq> [] then sep else []) @ p)" by simp
  also have "\<dots> \<le> length (accumulate sep ps (cur @ (if cur \<noteq> [] then sep else []) @ p))"
    by (rule Cons.IH)
  finally show ?case by simp
qed simp

lemma section_loop_accumulates:
  "real (length (accumulate sep ps cur)) \<le> size_v \<Longrightarrow>
   section_loop size_v sep ps (chunks, cur) = (chunks, accumulate sep ps cur)"
proof (induction ps arbitrary: cur)
  case (Cons p ps)
  let ?cur' = "cur @ (if cur \<noteq> [] then sep else []) @ p"
  have "length ?cur' \<le> length (accumulate sep ps ?cur')" by (rule accumulate_length)
  then have "real (length ?cur') \<le> real (length (accumulate sep (p # ps) cur))"
    by (simp only: accumulate.simps of_nat_le_iff)
  from this Cons.prems have b: "real (length ?cur') \<le> size_v" by (rule order_trans)
  then have "\<not> real (length p) > size_v" and "\<not> real (length cur) + real (length p) > size_v"
    by simp_all
  with Cons show ?case by simp
qed simp

lemma accumulate_split_go:
  "sep \<noteq> [] \<Longrightarrow>
   (cur \<noteq> [] \<longrightarrow> accumulate sep (split_go sep s piece) cur = cur @ sep @ piece @ s)
   \<and> (cur = [] \<and> piece \<noteq> [] \<longrightarrow> accumulate sep (split_go sep s piece) cur = piece @ s)
   \<and> (cur = [] \<and> piece = [] \<longrightarrow>
        (\<exists>k. s = concat (replicate k sep) @ accumulate sep (split_go sep s piece) cur))"
proof (induction sep s piece arbitrary: cur rule: split_go.induct)
  case (1 sep piece)
  show ?case by (auto intro: exI[of _ 0])
next
  case (2 sep c s piece)
  show ?case
  proof (cases "prefix sep (c # s)")
    case True
    then obtain rest where rest: "c # s = sep @ rest" by (auto simp: prefix_def)
    then have d: "drop (length sep) (c # s) = rest" by simp
    let ?cur' = "cur @ (if cur \<noteq> [] then sep else []) @ piece"
    note ih = "2.IH"(1)[OF conjI[OF "2.prems" True] "2.prems", of ?cur', unfolded d]
    have IH1: "accumulate sep (split_go sep rest []) ?cur' = ?cur' @ sep @ rest" if "?cur' \<noteq> []"
      using ih that by simp
    have IH2: "\<exists>k. rest = concat (replicate k sep) @ accumulate sep (split_go sep rest []) ?cur'"
      if "?cur' = []"
      using ih that by blast
    have "split_go sep (c # s) piece = piece # split_go sep (drop (length sep) (c # s)) []"
      using True "2.prems" by (simp only: split_go.simps if_True simp_thms)
    then have sg: "split_go sep (c # s) piece = piece # split_go sep rest []"
      by (simp only: d)
    have acc: "accumulate sep (split_go sep (c # s) piece) cur
        = accumulate sep (split_go sep rest []) ?cur'"
      by (simp only: sg accumulate.simps)
    show ?thesis
    proof (intro conjI impI)
      assume a: "cur \<noteq> []"
      then have "?cur' \<noteq> []" by simp
      then have "accumulate sep (split_go sep (c # s) piece) cur = ?cur' @ sep @ rest"
        unfolding acc by (rule IH1)
      also have "\<dots> = cur @ sep @ piece @ c # s" using a rest by simp
      finally show "accumulate sep (split_go sep (c # s) piece) cur = cur @ sep @ piece @ c # s" .
    next
      assume a: "cur = [] \<and> piece \<noteq> []"
      then have "?cur' \<noteq> []" by simp
      then have "accumulate sep (split_go sep (c # s) piece) cur = ?cur' @ sep @ rest"
        unfolding acc by (rule IH1)
      also have "\<dots> = piece @ c # s" using a rest by simp
      finally show "accumulate sep (split_go sep (c # s) piece) cur = piece @ c # s" .
    next
      assume a: "cur = [] \<and> piece = []"
      then have e: "?cur' = []" by simp
      from IH2[OF e] obtain k
        where k: "rest = concat (replicate k sep) @ accumulate sep (split_go sep rest []) ?cur'"
        by blast
      have "sep @ rest = concat (replicate (Suc k) sep) @ accumulate sep (split_go sep rest []) ?cur'"
        using k by simp
      then have "c # s = concat (replicate (Suc k) sep) @ accumulate sep (split_go sep (c # s) piece) cur"
        unfolding acc using rest by simp
      then show "\<exists>k. c # s = concat (replicate k sep) @ accumulate sep (split_go sep (c # s) piece) cur"
        by blast
    qed
  next
    case False
    then have sg: "split_go sep (c # s) piece = split_go sep s (piece @ [c])"
      by (simp only: split_go.simps simp_thms if_False)
    have nm: "\<not> (sep \<noteq> [] \<and> prefix sep (c # s))" using False by simp
    note ih = "2.IH"(2)[OF nm "2.prems", of cur]
    have IH: "(cur \<noteq> [] \<longrightarrow> accumulate sep (split_go sep s (piece @ [c])) cur = cur @ sep @ (piece @ [c]) @ s)
       \<and> (cur = [] \<longrightarrow> accumulate sep (split_go sep s (piece @ [c])) cur = (piece @ [c]) @ s)"
      using ih by simp
    show ?thesis
    proof (intro conjI impI)
      assume "cur \<noteq> []"
      then show "accumulate sep (split_go sep (c # s) piece) cur = cur @ sep @ piece @ c # s"
        using IH sg by simp
    next
      assume "cur = [] \<and> piece \<noteq> []"
      then show "accumulate sep (split_go sep (c # s) piece) cur = piece @ c # s"
        using IH sg by simp
    next
      assume a: "cur = [] \<and> piece = []"
      then have "accumulate sep (split_go sep (c # s) piece) cur = c # s" using IH sg by simp
      then show "\<exists>k. c # s = concat (replicate k sep) @ accumulate sep (split_go sep (c # s) piece) cur"
        by (intro exI[of _ 0]) simp
    qed
  qed
qed

lemma accumulate_chars: "accumulate [] (map (\<lambda>c. [c]) s) cur = cur @ s"
  by (induction s arbitrary: cur) simp_all

lemma accumulate_split_on:
  "\<exists>k. s = concat (replicate k sep) @ accumulate sep (split_on sep s) []"
proof (cases "sep = []")
  case True
  then show ?thesis by (simp add: split_on_def accumulate_chars)
next
  case False
  from accumulate_split_go[OF False, of "[]" s "[]"] False show ?thesis
    by (simp add: split_on_def)
qed

lemma trim_Nil [simp]: "trim [] = []"
  by (simp add: trim_def)

lemma trim_leading_space:
  assumes "list_all is_space ws"
  shows "trim (ws @ s) = trim s"
proof -
  have "dropWhile is_space (ws @ s) = dropWhile is_space s"
    using assms by (intro dropWhile_append2) (simp add: list_all_iff)
  then show ?thesis by (simp add: trim_def)
qed

lemma spaces_replicate:
  "list_all is_space sep \<Longrightarrow> list_all is_space (concat (replicate k sep))"
  by (induction k) simp_all

lemma accumulate_no_leading_separator:
  assumes "\<not> begins_with_separator sep t"
  shows "accumulate sep (split_on sep t) [] = t"
proof (cases "sep = []")
  case True
  then show ?thesis by (simp add: split_on_def accumulate_chars)
next
  case sep: False
  with assms have np: "\<not> prefix sep t" by (simp add: begins_with_separator_def)
  show ?thesis
  proof (cases t)
    case Nil
    with sep show ?thesis by (simp add: split_on_def)
  next
    case (Cons c s)
    with np sep have "split_go sep t [] = split_go sep s [c]" by simp
    moreover from accumulate_split_go[OF sep, of "[]" s "[c]"]
    have "accumulate sep (split_go sep s [c]) [] = [c] @ s" by simp
    ultimately show ?thesis using sep Cons by (simp add: split_on_def)
  qed
qed

lemma chunkText_accumulated:
  assumes "real (length t) \<le> chunk_size opts"
  shows "chunkText t opts =
     (if trim (accumulate (chunk_separator opts) (split_on (chunk_separator opts) t) []) = []
      then []
      else [trim (accumulate (chunk_separator opts) (split_on (chunk_separator opts) t) [])])"
proof -
  let ?sep = "chunk_separator opts"
  let ?A = "accumulate ?sep (split_on ?sep t) []"
  from accumulate_split_on[of t ?sep] obtain k where k: "t = concat (replicate k ?sep) @ ?A" by blast
  have "length ?A \<le> length (concat (replicate k ?sep) @ ?A)" by simp
  then have "length ?A \<le> length t" using k by simp
  then have "real (length ?A) \<le> real (length t)" by (simp only: of_nat_le_iff)
  with assms have "real (length ?A) \<le> chunk_size opts" by linarith
  then have "section_loop (chunk_size opts) ?sep (split_on ?sep t) ([], []) = ([], ?A)"
    by (rule section_loop_accumulates)
  then show ?thesis by (simp add: chunkText_def)
qed

lemma chunkText_small:
  assumes "real (length t) \<le> chunk_size opts"
  shows "\<exists>k body. t = concat (replicate k (chunk_separator opts)) @ body
           \<and> chunkText t opts = (if trim body = [] then [] else [trim body])"
  using accumulate_split_on[of t "chunk_separator opts"] chunkText_accumulated[OF assms]
  by blast

lemma chunkText_small_space_separator:
  assumes "real (length t) \<le> chunk_size opts" and "list_all is_space (chunk_separator opts)"
  shows "chunkText t opts = (if trim t = [] then [] else [trim t])"
proof -
  from chunkText_small[OF assms(1)] obtain k body
    where t: "t = concat (replicate k (chunk_separator opts)) @ body"
      and c: "chunkText t opts = (if trim body = [] then [] else [trim body])" by blast
  have "trim t = trim body"
    unfolding t using spaces_replicate[OF assms(2)] by (rule trim_leading_space)
  with c show ?thesis by simp
qed

lemma chunkText_small_no_leading_separator:
  assumes "real (length t) \<le> chunk_size opts"
    and "\<not> begins_with_separator (chunk_separator opts) t"
  shows "chunkText t opts = (if trim t = [] then [] else [trim t])"
  using chunkText_accumulated[OF assms(1)] accumulate_no_leading_separator[OF assms(2)]
  by simp

lemma sentences_Nil: "sentences [] = []"
  by simp

lemma chunkText_empty: "chunkText [] opts = []"
proof (cases "chunk_separator opts = []")
  case True
  then show ?thesis by (simp add: chunkText_def split_on_def)
next
  case False
  then have s: "split_on (chunk_separator opts) [] = [[]]" by (simp add: split_on_def)
  have "section_loop (chunk_size opts) (chunk_separator opts) [[]] ([], []) = ([], [])"
    by (simp add: sentences_Nil)
  with s show ?thesis by (simp add: chunkText_def)
qed

lemma default_separator_space: "separator opts = None \<Longrightarrow> list_all is_space (chunk_separator opts)"
  by (simp add: chunk_separator_def is_space_def)

text \<open>
  C8, as the code has it. \<^verbatim>\<open>chunkText\<close> of the empty string is the empty sequence,
  whatever the options. For an input no longer than the configured size, with a
  separator of white space only (as the default is) or an input that does not begin with
  the separator, the result is the trimmed input as the only chunk, or the empty sequence
  when the input is all white space (empty chunks are filtered out). In particular
  \<^verbatim>\<open>A. B. C.\<close> with size 1000 gives the single chunk \<^verbatim>\<open>A. B. C.\<close>.
\<close>

theorem chunkText_small_input:
  "chunkText [] opts = []
   \<and> (real (length t) \<le> chunk_size opts
        \<and> (list_all is_space (chunk_separator opts)
             \<or> \<not> begins_with_separator (chunk_separator opts) t) \<longrightarrow>
        chunkText t opts = (if trim t = [] then [] else [trim t]))
   \<and> chunkText ''A. B. C.'' \<lparr>chunkSize = Some 1000, chunkOverlap = None, separator = None\<rparr>
       = [''A. B. C.'']"
proof -
  let ?o = "\<lparr>chunkSize = Some 1000, chunkOverlap = None, separator = None\<rparr>"
  have "real (length ''A. B. C.'') \<le> chunk_size ?o" by (simp add: chunk_size_def)
  moreover have "list_all is_space (chunk_separator ?o)" by (simp add: default_separator_space)
  ultimately have "chunkText ''A. B. C.'' ?o = (if trim ''A. B. C.'' = [] then [] else [trim ''A. B. C.''])"
    by (rule chunkText_small_space_separator)
  moreover have "trim ''A. B. C.'' = ''A. B. C.''" by (simp add: trim_def is_space_def)
  ultimately have ex: "chunkText ''A. B. C.'' ?o = [''A. B. C.'']" by simp
  show ?thesis
    using chunkText_empty[of opts] chunkText_small_no_leading_separator[of t opts]
      chunkText_small_space_separator[of t opts] ex
    by blast
qed

theorem chunkText_small_input_witness:
  "real (length ''  hi '')
     \<le> chunk_size \<lparr>chunkSize = Some 10, chunkOverlap = None, separator = None\<rparr>
   \<and> list_all is_space (chunk_separator \<lparr>chunkSize = Some 10, chunkOverlap = None, separator = None\<rparr>)
   \<and> chunkText ''  hi '' \<lparr>chunkSize = Some 10, chunkOverlap = None, separator = None\<rparr> = [''hi'']
   \<and> real (length ''a,b'')
     \<le> chunk_size \<lparr>chunkSize = Some 10, chunkOverlap = None, separator = Some '',''\<rparr>
   \<and> \<not> begins_with_separator
         (chunk_separator \<lparr>chunkSize = Some 10, chunkOverlap = None, separator = Some '',''\<rparr>) ''a,b''
   \<and> chunkText ''a,b'' \<lparr>chunkSize = Some 10, chunkOverlap = None, separator = Some '',''\<rparr>
       = [''a,b'']"
proof -
  let ?o = "\<lparr>chunkSize = Some 10, chunkOverlap = None, separator = None\<rparr>"
  let ?c = "\<lparr>chunkSize = Some 10, chunkOverlap = None, separator = Some '',''\<rparr>"
  have h1: "real (length ''  hi '') \<le> chunk_size ?o" by (simp add: chunk_size_def)
  have h2: "list_all is_space (chunk_separator ?o)" by (simp add: chunk_separator_def is_space_def)
  have tr: "trim ''  hi '' = ''hi''" by (simp add: trim_def is_space_def)
  have g1: "real (length ''a,b'') \<le> chunk_size ?c" by (simp add: chunk_size_def)
  have g2: "\<not> begins_with_separator (chunk_separator ?c) ''a,b''"
    by (simp add: chunk_separator_def begins_with_separator_def)
  have tr': "trim ''a,b'' = ''a,b''" by (simp add: trim_def is_space_def)
  note inst = chunkText_small_input [of ?o "''  hi ''"]
  note inst' = chunkText_small_input [of ?c "''a,b''"]
  from inst h1 h2 have "chunkText ''  hi '' ?o = (if trim ''  hi '' = [] then [] else [trim ''  hi ''])"
    by blast
  then have b: "chunkText ''  hi '' ?o = [''hi'']" by (simp add: tr)
  from inst' g1 g2 have "chunkText ''a,b'' ?c = (if trim ''a,b'' = [] then [] else [trim ''a,b''])"
    by blast
  then have b': "chunkText ''a,b'' ?c = [''a,b'']" by (simp add: tr')
  from h1 h2 b g1 g2 b' show ?thesis by blast
qed

text \<open>
  C8 as stated fails on an input of white space only: a single blank, below the size,
  gives no chunk at all, not one chunk equal to the (empty) trimmed input. It fails as
  well when the separator is not white space and the input starts with it: the leading
  separator is not in the chunk.
\<close>

theorem chunkText_small_input_counterexample:
  "real (length '' '') \<le> chunk_size \<lparr>chunkSize = Some 1000, chunkOverlap = None, separator = None\<rparr>
   \<and> chunkText '' '' \<lparr>chunkSize = Some 1000, chunkOverlap = None, separator = None\<rparr> = []
   \<and> [trim '' ''] \<noteq> []
   \<and> real (length '',a'')
       \<le> chunk_size \<lparr>chunkSize = Some 1000, chunkOverlap = None, separator = Some '',''\<rparr>
   \<and> chunkText '',a'' \<lparr>chunkSize = Some 1000, chunkOverlap = None, separator = Some '',''\<rparr>
       = [''a'']
   \<and> trim '',a'' = '',a''"
  by (simp add: chunkText_def chunk_size_def chunk_separator_def split_on_def trim_def is_space_def)

text \<open>
  C9. Two option sets that agree on \<^verbatim>\<open>chunkSize\<close> and \<^verbatim>\<open>separator\<close>, and so differ
  at most in \<^verbatim>\<open>chunkOverlap\<close>, give the same chunks for every text: the overlap is
  accepted and never used.
\<close>

theorem chunkOverlap_unused:
  assumes "chunkSize o1 = chunkSize o2" and "separator o1 = separator o2"
  shows "chunkText t o1 = chunkText t o2"
  using assms by (simp add: chunkText_def chunk_size_def chunk_separator_def)

lemma chunk_two_sentences:
  "chunkText ''Hello world. How are you?''
        \<lparr>chunkSize = Some 10, chunkOverlap = Some 5, separator = None\<rparr>
   = [''Hello world.'', ''How are you?'']"
  by (simp add: chunkText_def chunk_size_def chunk_separator_def split_on_def trim_def
      is_space_def sentence_mark_def Let_def)

theorem chunkOverlap_unused_witness:
  "chunkSize \<lparr>chunkSize = Some 10, chunkOverlap = Some 0, separator = None\<rparr>
     = chunkSize \<lparr>chunkSize = Some 10, chunkOverlap = Some 5, separator = None\<rparr>
   \<and> separator \<lparr>chunkSize = Some 10, chunkOverlap = Some 0, separator = None\<rparr>
     = separator \<lparr>chunkSize = Some 10, chunkOverlap = Some 5, separator = None\<rparr>
   \<and> chunkOverlap \<lparr>chunkSize = Some 10, chunkOverlap = Some 0, separator = None\<rparr>
     \<noteq> chunkOverlap \<lparr>chunkSize = Some 10, chunkOverlap = Some 5, separator = None\<rparr>
   \<and> chunkText ''Hello world. How are you?''
        \<lparr>chunkSize = Some 10, chunkOverlap = Some 0, separator = None\<rparr>
     = chunkText ''Hello world. How are you?''
        \<lparr>chunkSize = Some 10, chunkOverlap = Some 5, separator = None\<rparr>
   \<and> chunkText ''Hello world. How are you?''
        \<lparr>chunkSize = Some 10, chunkOverlap = Some 5, separator = None\<rparr>
     = [''Hello world.'', ''How are you?'']"
  using chunkOverlap_unused [of "\<lparr>chunkSize = Some 10, chunkOverlap = Some 0, separator = None\<rparr>"
      "\<lparr>chunkSize = Some 10, chunkOverlap = Some 5, separator = None\<rparr>"
      "''Hello world. How are you?''"]
    chunk_two_sentences
  by simp

end
